theory Spec2Isabelle
  imports Complex_Main "HOL-Library.AList"
begin

section \<open>JavaScript values and objects\<close>

text \<open>
  The values the code handles. A number is a rational: every finite number of
  JavaScript is one, and the arithmetic of the code is taken exactly, without the
  rounding of doubles. \<open>JIso t\<close> stands for the string that
  \<^verbatim>\<open>new Date(t).toISOString()\<close> returns for the instant \<open>t\<close> (milliseconds since the
  epoch): a non-empty string, read back by \<^verbatim>\<open>new Date(s)\<close>. \<open>JStr s\<close> is any other
  string. \<open>JRef a\<close> is a reference to the object stored at address \<open>a\<close> of the heap.
\<close>

datatype jsval =
    JUndefined
  | JNull
  | JBool bool
  | JNum rat
  | JStr string
  | JIso int
  | JRef nat

type_synonym obj = "string \<Rightarrow> jsval option"

text \<open>A thrown \<^verbatim>\<open>Error\<close> with its message. A message that prints a number is
  cut before the number.\<close>

datatype js_error = Error string

text \<open>JavaScript truthiness, as \<^verbatim>\<open>!x\<close> and \<^verbatim>\<open>x || y\<close> use it.\<close>

fun truthy :: "jsval \<Rightarrow> bool" where
  "truthy JUndefined = False"
| "truthy JNull = False"
| "truthy (JBool b) = b"
| "truthy (JNum n) = (n \<noteq> 0)"
| "truthy (JStr s) = (s \<noteq> [])"
| "truthy (JIso t) = True"
| "truthy (JRef a) = True"

definition js_or :: "jsval \<Rightarrow> jsval \<Rightarrow> jsval" where
  "js_or a b = (if truthy a then a else b)"

text \<open>Reading an own property of an object; an absent property reads as undefined.\<close>

definition get_prop :: "obj \<Rightarrow> string \<Rightarrow> jsval" where
  "get_prop ob k = (case ob k of None \<Rightarrow> JUndefined | Some v \<Rightarrow> v)"

section \<open>The job store (utils/job-manager.js)\<close>

text \<open>
  The store is a \<^verbatim>\<open>Map\<close> from job id to a job object. Objects live in a heap, so
  that two references to one object are visible as such: \<open>jobs\<close> keeps the entries of the
  \<^verbatim>\<open>Map\<close> in insertion order, each holding the address of its job object; \<open>fresh\<close>
  is the next unused address.
\<close>

record jm_state =
  heap :: "nat \<Rightarrow> obj option"
  fresh :: nat
  jobs :: "(string \<times> nat) list"

definition empty_store :: jm_state where
  "empty_store = \<lparr>heap = (\<lambda>a. None), fresh = 0, jobs = []\<rparr>"

text \<open>An object literal or a spread \<^verbatim>\<open>{...o}\<close> creates a new object.\<close>

definition alloc :: "obj \<Rightarrow> jm_state \<Rightarrow> nat \<times> jm_state" where
  "alloc ob st = (fresh st, st\<lparr>heap := (heap st)(fresh st \<mapsto> ob), fresh := Suc (fresh st)\<rparr>)"

text \<open>\<^verbatim>\<open>v.k\<close> for a value \<open>v\<close>: the own property of the object it refers to. The
  primitives that pass a truthiness test (numbers, booleans, strings) have none of the
  keys the code reads, so the read gives undefined.\<close>

definition prop_of :: "jm_state \<Rightarrow> jsval \<Rightarrow> string \<Rightarrow> jsval" where
  "prop_of st v k =
     (case v of
        JRef a \<Rightarrow> (case heap st a of None \<Rightarrow> JUndefined | Some ob \<Rightarrow> get_prop ob k)
      | _ \<Rightarrow> JUndefined)"

text \<open>\<^verbatim>\<open>this.jobs.get(jobId)\<close>: the job object of an id, if any.\<close>

definition job_obj :: "jm_state \<Rightarrow> string \<Rightarrow> (nat \<times> obj) option" where
  "job_obj st jobId =
     (case map_of (jobs st) jobId of
        None \<Rightarrow> None
      | Some a \<Rightarrow> (case heap st a of None \<Rightarrow> None | Some ob \<Rightarrow> Some (a, ob)))"

definition job_field :: "jm_state \<Rightarrow> string \<Rightarrow> string \<Rightarrow> jsval" where
  "job_field st jobId k =
     (case job_obj st jobId of None \<Rightarrow> JUndefined | Some (a, ob) \<Rightarrow> get_prop ob k)"

definition request_literal :: "jm_state \<Rightarrow> jsval \<Rightarrow> obj" where
  "request_literal st requestData =
     [''tweetBody'' \<mapsto> js_or (prop_of st requestData ''tweetBody'') JNull,
      ''profilePhotoUrl'' \<mapsto> js_or (prop_of st requestData ''profilePhotoUrl'') JNull,
      ''profileName'' \<mapsto> js_or (prop_of st requestData ''profileName'') JNull,
      ''username'' \<mapsto> js_or (prop_of st requestData ''username'') JNull,
      ''theme'' \<mapsto> js_or (prop_of st requestData ''theme'') JNull]"

text \<open>\<open>createJob\<close>: \<open>now\<close> is the clock, \<open>jobId\<close> the identifier \<^verbatim>\<open>uuidv4()\<close>
  returns.\<close>

definition createJob :: "int \<Rightarrow> string \<Rightarrow> jsval \<Rightarrow> jm_state \<Rightarrow> js_error + (string \<times> jm_state)" where
  "createJob now jobId requestData st =
     (if \<not> truthy requestData then Inl (Error ''Request data is required to create a job'')
      else
        let (r, st1) = alloc (request_literal st requestData) st;
            (j, st2) = alloc
              [''jobId'' \<mapsto> JStr jobId,
               ''status'' \<mapsto> JStr ''pending'',
               ''createdAt'' \<mapsto> JIso now,
               ''updatedAt'' \<mapsto> JIso now,
               ''completedAt'' \<mapsto> JNull,
               ''request'' \<mapsto> JRef r,
               ''result'' \<mapsto> JNull,
               ''error'' \<mapsto> JNull,
               ''currentStep'' \<mapsto> JNull,
               ''progress'' \<mapsto> JNum 0] st1
        in Inr (jobId, st2\<lparr>jobs := AList.update jobId j (jobs st2)\<rparr>))"

text \<open>\<open>getJob\<close> returns null or a reference to a new object holding the properties of
  the job object (\<^verbatim>\<open>{ ...job }\<close>).\<close>

definition getJob :: "string \<Rightarrow> jm_state \<Rightarrow> jsval \<times> jm_state" where
  "getJob jobId st =
     (if jobId = [] then (JNull, st)
      else case job_obj st jobId of
        None \<Rightarrow> (JNull, st)
      | Some (a, ob) \<Rightarrow> (let (c, st') = alloc ob st in (JRef c, st')))"

definition valid_status :: "string \<Rightarrow> bool" where
  "valid_status s = (s \<in> set [''pending'', ''processing'', ''completed'', ''failed''])"

text \<open>\<open>updateJobStatus\<close>: \<open>additionalData\<close> is the object whose own properties
  \<^verbatim>\<open>Object.assign\<close> copies onto the job (the empty object by default). The clock reads
  of one call are one instant.\<close>

definition updateJobStatus :: "int \<Rightarrow> string \<Rightarrow> string \<Rightarrow> obj \<Rightarrow> jm_state \<Rightarrow> js_error + jm_state" where
  "updateJobStatus now jobId status additionalData st =
     (if jobId = [] then Inl (Error ''jobId is required'')
      else if \<not> valid_status status then Inl (Error (''Invalid status: '' @ status @ ''. Must be one of: pending, processing, completed, failed''))
      else case job_obj st jobId of
        None \<Rightarrow> Inl (Error (''Job '' @ jobId @ '' not found''))
      | Some (a, job) \<Rightarrow>
          let job1 = job(''status'' \<mapsto> JStr status, ''updatedAt'' \<mapsto> JIso now);
              job2 = job1 ++ additionalData;
              job3 = (if (status = ''completed'' \<or> status = ''failed'')
                         \<and> \<not> truthy (get_prop job2 ''completedAt'')
                      then job2(''completedAt'' \<mapsto> JIso now) else job2)
          in Inr (st\<lparr>heap := (heap st)(a \<mapsto> job3)\<rparr>))"

definition updateJobProgress :: "int \<Rightarrow> string \<Rightarrow> jsval \<Rightarrow> rat \<Rightarrow> jm_state \<Rightarrow> js_error + jm_state" where
  "updateJobProgress now jobId step percentage st =
     (if jobId = [] then Inl (Error ''jobId is required'')
      else if percentage < 0 \<or> percentage > 100 then Inl (Error ''Invalid percentage: '')
      else case job_obj st jobId of
        None \<Rightarrow> Inl (Error (''Job '' @ jobId @ '' not found''))
      | Some (a, job) \<Rightarrow>
          Inr (st\<lparr>heap := (heap st)(a \<mapsto>
                 job(''currentStep'' \<mapsto> step, ''progress'' \<mapsto> JNum percentage,
                     ''updatedAt'' \<mapsto> JIso now))\<rparr>))"

definition result_literal :: "jm_state \<Rightarrow> jsval \<Rightarrow> obj" where
  "result_literal st resultData =
     [''filename'' \<mapsto> js_or (prop_of st resultData ''filename'') JNull,
      ''downloadUrl'' \<mapsto> js_or (prop_of st resultData ''downloadUrl'') JNull,
      ''expiresAt'' \<mapsto> js_or (prop_of st resultData ''expiresAt'') JNull,
      ''fileSize'' \<mapsto> js_or (prop_of st resultData ''fileSize'') JNull,
      ''duration'' \<mapsto> js_or (prop_of st resultData ''duration'') JNull,
      ''resolution'' \<mapsto> js_or (prop_of st resultData ''resolution'') JNull]"

definition setJobCompleted :: "int \<Rightarrow> string \<Rightarrow> jsval \<Rightarrow> jm_state \<Rightarrow> js_error + jm_state" where
  "setJobCompleted now jobId resultData st =
     (if jobId = [] then Inl (Error ''jobId is required'')
      else if \<not> truthy resultData then Inl (Error ''resultData is required'')
      else case job_obj st jobId of
        None \<Rightarrow> Inl (Error (''Job '' @ jobId @ '' not found''))
      | Some (a, job) \<Rightarrow>
          let (r, st1) = alloc (result_literal st resultData) st
          in Inr (st1\<lparr>heap := (heap st1)(a \<mapsto>
                 job(''status'' \<mapsto> JStr ''completed'',
                     ''updatedAt'' \<mapsto> JIso now,
                     ''completedAt'' \<mapsto> JIso now,
                     ''progress'' \<mapsto> JNum 100,
                     ''currentStep'' \<mapsto> JStr ''Completed'',
                     ''result'' \<mapsto> JRef r,
                     ''error'' \<mapsto> JNull))\<rparr>))"

text \<open>\<open>setJobFailed\<close>: the parameter \<open>errorStack\<close> has the default null, which
  also replaces an undefined argument.\<close>

definition setJobFailed :: "int \<Rightarrow> string \<Rightarrow> jsval \<Rightarrow> jsval \<Rightarrow> jm_state \<Rightarrow> js_error + jm_state" where
  "setJobFailed now jobId errorMessage errorStack st =
     (if jobId = [] then Inl (Error ''jobId is required'')
      else if \<not> truthy errorMessage then Inl (Error ''errorMessage is required'')
      else case job_obj st jobId of
        None \<Rightarrow> Inl (Error (''Job '' @ jobId @ '' not found''))
      | Some (a, job) \<Rightarrow>
          let (e, st1) = alloc
                [''message'' \<mapsto> errorMessage,
                 ''stack'' \<mapsto> (if errorStack = JUndefined then JNull else errorStack),
                 ''failedAt'' \<mapsto> JIso now] st
          in Inr (st1\<lparr>heap := (heap st1)(a \<mapsto>
                 job(''status'' \<mapsto> JStr ''failed'',
                     ''updatedAt'' \<mapsto> JIso now,
                     ''completedAt'' \<mapsto> JIso now,
                     ''error'' \<mapsto> JRef e,
                     ''result'' \<mapsto> JNull))\<rparr>))"

text \<open>\<open>getAllJobs\<close> and \<open>getJobsByStatus\<close> copy each selected job object in the order of
  the \<^verbatim>\<open>Map\<close>.\<close>

fun copy_all :: "nat list \<Rightarrow> jm_state \<Rightarrow> jsval list \<times> jm_state" where
  "copy_all [] st = ([], st)"
| "copy_all (a # as) st =
     (case heap st a of
        None \<Rightarrow> copy_all as st
      | Some ob \<Rightarrow>
          (let (c, st1) = alloc ob st; (cs, st2) = copy_all as st1 in (JRef c # cs, st2)))"

definition getAllJobs :: "jm_state \<Rightarrow> jsval list \<times> jm_state" where
  "getAllJobs st = copy_all (map snd (jobs st)) st"

definition has_status :: "jm_state \<Rightarrow> string \<Rightarrow> nat \<Rightarrow> bool" where
  "has_status st status a =
     (case heap st a of None \<Rightarrow> False | Some ob \<Rightarrow> get_prop ob ''status'' = JStr status)"

definition getJobsByStatus :: "string \<Rightarrow> jm_state \<Rightarrow> js_error + (jsval list \<times> jm_state)" where
  "getJobsByStatus status st =
     (if status = [] then Inl (Error ''status is required'')
      else if \<not> valid_status status then Inl (Error (''Invalid status: '' @ status @ ''. Must be one of: pending, processing, completed, failed''))
      else Inr (copy_all (filter (has_status st status) (map snd (jobs st))) st))"

text \<open>
  The time value of a \<^verbatim>\<open>Date\<close> is a whole number of milliseconds since the epoch, at
  most 8.64e15 in absolute value; \<open>None\<close> is the invalid date. \<open>TimeClip\<close> is what
  \<^verbatim>\<open>new Date(n)\<close> makes of a number: out of range it is invalid, a fraction is cut
  off towards zero.
\<close>

definition TimeClip :: "rat \<Rightarrow> int option" where
  "TimeClip t =
     (if \<bar>t\<bar> > 8640000000000000 then None
      else Some (if 0 \<le> t then \<lfloor>t\<rfloor> else \<lceil>t\<rceil>))"

text \<open>
  \<^verbatim>\<open>new Date(v).getTime()\<close>. How JavaScript reads a string as a date is left to the
  engine for all but one format, and an object is read through its conversion to a
  string; so the reading of these is a parameter: \<open>parseDate v\<close> is the time value of
  \<^verbatim>\<open>new Date(v)\<close> for a string or an object \<open>v\<close>, \<open>None\<close> if the date is invalid.
\<close>

fun date_of :: "(jsval \<Rightarrow> int option) \<Rightarrow> jsval \<Rightarrow> int option" where
  "date_of parseDate (JIso t) = TimeClip (of_int t)"
| "date_of parseDate (JNum n) = TimeClip n"
| "date_of parseDate JNull = Some 0"
| "date_of parseDate (JBool b) = Some (if b then 1 else 0)"
| "date_of parseDate JUndefined = None"
| "date_of parseDate (JStr s) = parseDate (JStr s)"
| "date_of parseDate (JRef a) = parseDate (JRef a)"

text \<open>\<^verbatim>\<open>jobCreatedAt < cutoffTime\<close> on two dates: false when one of them is invalid.\<close>

definition created_before :: "(jsval \<Rightarrow> int option) \<Rightarrow> int option \<Rightarrow> jm_state \<Rightarrow> string \<times> nat \<Rightarrow> bool" where
  "created_before parseDate cutoffTime st e =
     (case heap st (snd e) of
        None \<Rightarrow> False
      | Some ob \<Rightarrow>
          (case date_of parseDate (get_prop ob ''createdAt'') of
             None \<Rightarrow> False
           | Some jobCreatedAt \<Rightarrow>
               (case cutoffTime of None \<Rightarrow> False | Some c \<Rightarrow> jobCreatedAt < c)))"

text \<open>\<open>cleanupExpiredJobs\<close> visits every entry of the \<^verbatim>\<open>Map\<close> once and deletes those
  created before the cutoff; it returns how many it deleted.\<close>

definition cleanupExpiredJobs :: "(jsval \<Rightarrow> int option) \<Rightarrow> int \<Rightarrow> rat \<Rightarrow> jm_state \<Rightarrow> js_error + (nat \<times> jm_state)" where
  "cleanupExpiredJobs parseDate now olderThanHours st =
     (if olderThanHours \<le> 0 then Inl (Error ''Invalid olderThanHours: '')
      else
        let cutoffTime = TimeClip (of_int now - olderThanHours * 60 * 60 * 1000)
        in Inr (length (filter (created_before parseDate cutoffTime st) (jobs st)),
                st\<lparr>jobs := filter (\<lambda>e. \<not> created_before parseDate cutoffTime st e) (jobs st)\<rparr>))"

text \<open>What a caller can do with a reference it was handed: assign a property of the
  object (\<^verbatim>\<open>o.k = v\<close>).\<close>

definition write_prop :: "jsval \<Rightarrow> string \<Rightarrow> jsval \<Rightarrow> jm_state \<Rightarrow> jm_state" where
  "write_prop r k v st =
     (case r of
        JRef a \<Rightarrow> (case heap st a of
                     None \<Rightarrow> st
                   | Some ob \<Rightarrow> st\<lparr>heap := (heap st)(a \<mapsto> ob(k \<mapsto> v))\<rparr>)
      | _ \<Rightarrow> st)"

text \<open>Sequences of the three status-changing operations. An operation that throws has
  changed nothing (every \<^verbatim>\<open>throw\<close> of the three precedes the first assignment).\<close>

datatype store_op =
    UpdateJobStatus int string string obj
  | SetJobCompleted int string jsval
  | SetJobFailed int string jsval jsval

fun apply_op :: "store_op \<Rightarrow> jm_state \<Rightarrow> jm_state" where
  "apply_op (UpdateJobStatus now jobId status additionalData) st =
     (case updateJobStatus now jobId status additionalData st of Inl e \<Rightarrow> st | Inr st' \<Rightarrow> st')"
| "apply_op (SetJobCompleted now jobId resultData) st =
     (case setJobCompleted now jobId resultData st of Inl e \<Rightarrow> st | Inr st' \<Rightarrow> st')"
| "apply_op (SetJobFailed now jobId errorMessage errorStack) st =
     (case setJobFailed now jobId errorMessage errorStack st of Inl e \<Rightarrow> st | Inr st' \<Rightarrow> st')"

definition apply_ops :: "store_op list \<Rightarrow> jm_state \<Rightarrow> jm_state" where
  "apply_ops ops st = fold apply_op ops st"

definition terminal :: "jsval \<Rightarrow> bool" where
  "terminal v = (v = JStr ''completed'' \<or> v = JStr ''failed'')"


section \<open>The worker pool (VideoGenerationWorker)\<close>

text \<open>
  The worker runs on one event loop: code runs without interruption from one
  \<^verbatim>\<open>await\<close> to the next. A call of \<^verbatim>\<open>processJob\<close> that is suspended at an
  \<^verbatim>\<open>await\<close> is a task with the phase it waits in: \<open>Rendering\<close> (template and
  screenshot), \<open>Composing\<close> (the video composer), \<open>Saving\<close> (reading the video and the
  storage provider's save), \<open>Cleaning\<close> (\<^verbatim>\<open>_cleanupTempFiles\<close>), and \<open>Settled\<close> once
  its \<^verbatim>\<open>finally\<close> block has run and the callback that \<^verbatim>\<open>processQueue\<close> chained
  to its promise is due. A call of \<^verbatim>\<open>processQueue\<close> suspended at
  \<^verbatim>\<open>await Promise.allSettled(processingPromises)\<close> is kept in \<open>ticks\<close> as the list of
  the jobs whose promises have not settled yet.
\<close>

datatype phase = Rendering | Composing | Saving | Cleaning | Settled

record sys =
  store :: jm_state
  maxConcurrentJobs :: int
  currentJobCount :: int
  processingJobs :: "string list"
  tasks :: "(string \<times> phase) list"
  ticks :: "string list list"

text \<open>The constructor: \<^verbatim>\<open>dependencies.maxConcurrentJobs || 2\<close>, no job in flight. The
  job store is the one handed in.\<close>

definition new_worker :: "jm_state \<Rightarrow> int option \<Rightarrow> sys" where
  "new_worker jm m =
     \<lparr>store = jm,
      maxConcurrentJobs = (case m of None \<Rightarrow> 2 | Some n \<Rightarrow> if n \<noteq> 0 then n else 2),
      currentJobCount = 0,
      processingJobs = [],
      tasks = [],
      ticks = []\<rparr>"

text \<open>What the saving phase hands to \<open>setJobCompleted\<close>.\<close>

record artifact =
  filename :: string
  downloadUrl :: string
  expiresAt :: int
  fileSize :: int

definition set_phase :: "string \<Rightarrow> phase \<Rightarrow> (string \<times> phase) list \<Rightarrow> (string \<times> phase) list" where
  "set_phase jobId p ts = AList.update jobId p ts"

text \<open>The \<^verbatim>\<open>catch\<close> block of \<open>processJob\<close>: \<open>setJobFailed\<close> inside its own
  \<^verbatim>\<open>try\<close>, then the task waits for \<^verbatim>\<open>_cleanupTempFiles\<close>.\<close>

definition on_error :: "int \<Rightarrow> string \<Rightarrow> jsval \<Rightarrow> jsval \<Rightarrow> sys \<Rightarrow> sys" where
  "on_error now jobId message stack s =
     (let st' = (case setJobFailed now jobId message stack (store s) of
                   Inl e \<Rightarrow> store s | Inr st1 \<Rightarrow> st1)
      in s\<lparr>store := st', tasks := set_phase jobId Cleaning (tasks s)\<rparr>)"

definition thrown :: "js_error \<Rightarrow> jsval" where
  "thrown e = (case e of Error m \<Rightarrow> JStr m)"

definition stack_of :: "js_error \<Rightarrow> jsval" where
  "stack_of e = (case e of Error m \<Rightarrow> JStr (''Error: '' @ m))"

text \<open>\<open>processJob\<close> from its call to its first \<^verbatim>\<open>await\<close>.\<close>

definition processJob :: "int \<Rightarrow> string \<Rightarrow> sys \<Rightarrow> sys" where
  "processJob now jobId s =
     (let s1 = s\<lparr>currentJobCount := currentJobCount s + 1\<rparr>;
          (job, st1) = getJob jobId (store s1);
          s2 = s1\<lparr>store := st1\<rparr>
      in if \<not> truthy job
         then on_error now jobId (JStr (''Job '' @ jobId @ '' not found''))
                (JStr (''Error: Job '' @ jobId @ '' not found'')) s2
         else case updateJobStatus now jobId ''processing'' Map.empty st1 of
           Inl e \<Rightarrow> on_error now jobId (thrown e) (stack_of e) s2
         | Inr st2 \<Rightarrow>
             (case updateJobProgress now jobId (JStr ''generating_screenshot'') 20 st2 of
                Inl e \<Rightarrow> on_error now jobId (thrown e) (stack_of e) (s2\<lparr>store := st2\<rparr>)
              | Inr st3 \<Rightarrow> s2\<lparr>store := st3, tasks := set_phase jobId Rendering (tasks s2)\<rparr>))"

text \<open>The value of \<^verbatim>\<open>job.jobId\<close> as a \<^verbatim>\<open>Map\<close> key; a value that is not a string is no
  key of the store, as the empty string is none for the store's operations.\<close>

definition str_of :: "jsval \<Rightarrow> string" where
  "str_of v = (case v of JStr x \<Rightarrow> x | _ \<Rightarrow> [])"

text \<open>The callback of \<^verbatim>\<open>jobsToProcess.map\<close> for one job: returns the state and whether
  a task was launched.\<close>

definition admit :: "int \<Rightarrow> jsval \<Rightarrow> string list \<times> sys \<Rightarrow> string list \<times> sys" where
  "admit now job acc =
     (let (launched, s) = acc; jobId = str_of (prop_of (store s) job ''jobId'')
      in if jobId \<in> set (processingJobs s) then (launched, s)
         else (launched @ [jobId],
               processJob now jobId (s\<lparr>processingJobs := processingJobs s @ [jobId]\<rparr>)))"

text \<open>\<open>processQueue\<close> up to \<^verbatim>\<open>await Promise.allSettled\<close>. With no promise to wait
  for, the call is over.\<close>

definition processQueue :: "int \<Rightarrow> sys \<Rightarrow> sys" where
  "processQueue now s =
     (if currentJobCount s \<ge> maxConcurrentJobs s then s
      else case getJobsByStatus ''pending'' (store s) of
        Inl e \<Rightarrow> s
      | Inr (pendingJobs, st1) \<Rightarrow>
          if pendingJobs = [] then s\<lparr>store := st1\<rparr>
          else
            let availableSlots = maxConcurrentJobs s - currentJobCount s;
                jobsToProcess = take (nat availableSlots) pendingJobs;
                (launched, s1) = fold (admit now) jobsToProcess ([], s\<lparr>store := st1\<rparr>)
            in if launched = [] then s1 else s1\<lparr>ticks := ticks s1 @ [launched]\<rparr>)"

text \<open>The continuation of \<open>processJob\<close> when the awaited stage resolves.\<close>

definition result_data :: "artifact \<Rightarrow> obj" where
  "result_data art =
     [''filename'' \<mapsto> JStr (filename art),
      ''downloadUrl'' \<mapsto> JStr (downloadUrl art),
      ''expiresAt'' \<mapsto> JIso (expiresAt art),
      ''fileSize'' \<mapsto> JNum (of_int (fileSize art)),
      ''duration'' \<mapsto> JNum 5,
      ''resolution'' \<mapsto> JStr ''1080x1920'']"

definition stage_ok :: "int \<Rightarrow> string \<Rightarrow> artifact \<Rightarrow> sys \<Rightarrow> sys" where
  "stage_ok now jobId art s =
     (case map_of (tasks s) jobId of
        Some Rendering \<Rightarrow>
          (case updateJobProgress now jobId (JStr ''composing_video'') 60 (store s) of
             Inl e \<Rightarrow> on_error now jobId (thrown e) (stack_of e) s
           | Inr st1 \<Rightarrow> s\<lparr>store := st1, tasks := set_phase jobId Composing (tasks s)\<rparr>)
      | Some Composing \<Rightarrow>
          (case updateJobProgress now jobId (JStr ''saving_file'') 80 (store s) of
             Inl e \<Rightarrow> on_error now jobId (thrown e) (stack_of e) s
           | Inr st1 \<Rightarrow> s\<lparr>store := st1, tasks := set_phase jobId Saving (tasks s)\<rparr>)
      | Some Saving \<Rightarrow>
          (let (r, st1) = alloc (result_data art) (store s)
           in case setJobCompleted now jobId (JRef r) st1 of
                Inl e \<Rightarrow> on_error now jobId (thrown e) (stack_of e) (s\<lparr>store := st1\<rparr>)
              | Inr st2 \<Rightarrow> s\<lparr>store := st2, tasks := set_phase jobId Cleaning (tasks s)\<rparr>)
      | _ \<Rightarrow> s)"

text \<open>The awaited stage rejects with an error of the given message and stack.\<close>

definition stage_err :: "int \<Rightarrow> string \<Rightarrow> jsval \<Rightarrow> jsval \<Rightarrow> sys \<Rightarrow> sys" where
  "stage_err now jobId message stack s =
     (case map_of (tasks s) jobId of
        Some Rendering \<Rightarrow> on_error now jobId message stack s
      | Some Composing \<Rightarrow> on_error now jobId message stack s
      | Some Saving \<Rightarrow> on_error now jobId message stack s
      | _ \<Rightarrow> s)"

text \<open>\<^verbatim>\<open>_cleanupTempFiles\<close> is over: the \<^verbatim>\<open>finally\<close> block of \<open>processJob\<close>.\<close>

definition release :: "string \<Rightarrow> sys \<Rightarrow> sys" where
  "release jobId s =
     (case map_of (tasks s) jobId of
        Some Cleaning \<Rightarrow>
          s\<lparr>currentJobCount := currentJobCount s - 1, tasks := set_phase jobId Settled (tasks s)\<rparr>
      | _ \<Rightarrow> s)"

text \<open>The callback chained in \<open>processQueue\<close>: \<^verbatim>\<open>processingJobs.delete(job.jobId)\<close>; the
  promise of the job is settled, and a \<open>processQueue\<close> call that waits for no other
  promise returns.\<close>

definition settle :: "string \<Rightarrow> sys \<Rightarrow> sys" where
  "settle jobId s =
     (case map_of (tasks s) jobId of
        Some Settled \<Rightarrow>
          s\<lparr>processingJobs := removeAll jobId (processingJobs s),
            tasks := AList.delete jobId (tasks s),
            ticks := filter (\<lambda>ws. ws \<noteq> []) (map (removeAll jobId) (ticks s))\<rparr>
      | _ \<Rightarrow> s)"

text \<open>What can happen next on the event loop: a request creates a job, the poll timer
  fires, an awaited stage of a task resolves or rejects, a task's cleanup ends, a
  settled promise's callback runs, the retention sweep prunes the job store.\<close>

datatype event =
    Create int string jsval
  | Tick int
  | StageOk int string artifact
  | StageErr int string jsval jsval
  | Released string
  | Settle string
  | Prune int rat

fun step :: "(jsval \<Rightarrow> int option) \<Rightarrow> event \<Rightarrow> sys \<Rightarrow> sys" where
  "step parseDate (Create now jobId requestData) s =
     (case createJob now jobId requestData (store s) of
        Inl e \<Rightarrow> s | Inr (i, st') \<Rightarrow> s\<lparr>store := st'\<rparr>)"
| "step parseDate (Tick now) s = processQueue now s"
| "step parseDate (StageOk now jobId art) s = stage_ok now jobId art s"
| "step parseDate (StageErr now jobId message stack) s = stage_err now jobId message stack s"
| "step parseDate (Released jobId) s = release jobId s"
| "step parseDate (Settle jobId) s = settle jobId s"
| "step parseDate (Prune now hours) s =
     (case cleanupExpiredJobs parseDate now hours (store s) of
        Inl e \<Rightarrow> s | Inr (n, st') \<Rightarrow> s\<lparr>store := st'\<rparr>)"

definition run :: "(jsval \<Rightarrow> int option) \<Rightarrow> event list \<Rightarrow> sys \<Rightarrow> sys" where
  "run parseDate evs s = fold (step parseDate) evs s"

text \<open>The number of jobs of the store in status \<open>processing\<close>.\<close>

definition processing_count :: "sys \<Rightarrow> nat" where
  "processing_count s =
     length (filter (has_status (store s) ''processing'') (map snd (jobs (store s))))"

text \<open>Every error the pipeline of this repository raises carries a message.\<close>

fun event_ok :: "event \<Rightarrow> bool" where
  "event_ok (StageErr now jobId message stack) = truthy message"
| "event_ok e = True"

definition unfinished :: "string \<times> phase \<Rightarrow> bool" where
  "unfinished t = (snd t \<noteq> Settled)"


section \<open>The artifact store (utils/storage/local.js)\<close>

subsection \<open>Paths\<close>

text \<open>
  \<^verbatim>\<open>path.basename\<close> and \<^verbatim>\<open>path.join\<close> of Node.js on POSIX: \<open>basename\<close> drops the
  trailing slashes and returns what follows the last remaining slash; \<open>path_join\<close>
  joins its non-empty arguments with a slash and normalises the result, where an empty
  segment and \<^verbatim>\<open>.\<close> are dropped and \<^verbatim>\<open>..\<close> removes the segment before it.
\<close>

definition basename :: "string \<Rightarrow> string" where
  "basename p =
     rev (takeWhile (\<lambda>c. c \<noteq> CHR ''/'') (dropWhile (\<lambda>c. c = CHR ''/'') (rev p)))"

fun segments :: "string \<Rightarrow> string list" where
  "segments [] = [[]]"
| "segments (c # cs) =
     (if c = CHR ''/'' then [] # segments cs
      else (case segments cs of [] \<Rightarrow> [[c]] | x # xs \<Rightarrow> (c # x) # xs))"

fun normalizeString :: "bool \<Rightarrow> string list \<Rightarrow> string list \<Rightarrow> string list" where
  "normalizeString allowAboveRoot res [] = res"
| "normalizeString allowAboveRoot res (x # xs) =
     (if x = [] \<or> x = ''.'' then normalizeString allowAboveRoot res xs
      else if x = ''..'' then
        (if res \<noteq> [] \<and> last res \<noteq> ''..'' then normalizeString allowAboveRoot (butlast res) xs
         else if allowAboveRoot then normalizeString allowAboveRoot (res @ [''..'']) xs
         else normalizeString allowAboveRoot res xs)
      else normalizeString allowAboveRoot (res @ [x]) xs)"

fun join_with_slash :: "string list \<Rightarrow> string" where
  "join_with_slash [] = []"
| "join_with_slash [x] = x"
| "join_with_slash (x # y # ys) = x @ ''/'' @ join_with_slash (y # ys)"

definition normalize :: "string \<Rightarrow> string" where
  "normalize p =
     (if p = [] then ''.''
      else
        let isAbsolute = (hd p = CHR ''/'');
            trailingSeparator = (last p = CHR ''/'');
            q = join_with_slash (normalizeString (\<not> isAbsolute) [] (segments p))
        in if q = [] then (if isAbsolute then ''/'' else if trailingSeparator then ''./'' else ''.'')
           else (if isAbsolute then ''/'' else []) @ q @ (if trailingSeparator then ''/'' else []))"

definition path_join :: "string \<Rightarrow> string \<Rightarrow> string" where
  "path_join a b =
     (if a = [] \<and> b = [] then ''.''
      else if a = [] then normalize b
      else if b = [] then normalize a
      else normalize (a @ ''/'' @ b))"

definition getFilePath :: "string \<Rightarrow> string \<Rightarrow> js_error + string" where
  "getFilePath storagePath fname =
     (if fname = [] then Inl (Error ''Filename is required'')
      else Inr (path_join storagePath (basename fname)))"

definition getMetadataPath :: "string \<Rightarrow> string \<Rightarrow> js_error + string" where
  "getMetadataPath storagePath fname =
     (case getFilePath storagePath fname of
        Inl e \<Rightarrow> Inl e
      | Inr p \<Rightarrow> Inr (p @ ''.meta.json''))"

text \<open>A path lies inside the storage root when it is the root followed by a slash
  and at least one more segment, none of which is \<^verbatim>\<open>..\<close>.\<close>

definition inside_root :: "string \<Rightarrow> string \<Rightarrow> bool" where
  "inside_root storagePath p =
     (let r = normalize storagePath; n = length r
      in take (n + 1) p = r @ ''/'' \<and> drop (n + 1) p \<noteq> []
         \<and> ''..'' \<notin> set (segments (drop (n + 1) p)))"

subsection \<open>The storage directory\<close>

text \<open>
  The provider object: the constructor reads \<^verbatim>\<open>config.storagePath || '/data/videos'\<close>
  and \<^verbatim>\<open>config.ttlHours || 24\<close>, so an absent, empty or zero setting gives the
  default.
\<close>

record provider_config =
  config_storagePath :: "string option"
  config_ttlHours :: "rat option"

record provider =
  storagePath :: string
  ttlHours :: rat

definition LocalStorageProvider :: "provider_config \<Rightarrow> provider" where
  "LocalStorageProvider config =
     \<lparr>storagePath = (case config_storagePath config of
                       None \<Rightarrow> ''/data/videos''
                     | Some p \<Rightarrow> if p \<noteq> [] then p else ''/data/videos''),
      ttlHours = (case config_ttlHours config of
                    None \<Rightarrow> 24
                  | Some h \<Rightarrow> if h \<noteq> 0 then h else 24)\<rparr>"

text \<open>
  The entries of the storage directory by name. A file holds bytes that are not JSON
  text (\<open>Raw\<close>, a payload) or the JSON text of an object (\<open>Json\<close>, a metadata record;
  the JSON text of another value has no property the code reads, as the empty object).
  A name is \<open>plain\<close> when it can be the name of an entry; \<open>getFilePath\<close> of a plain
  name is that entry of the directory, and of no other name (those paths are the
  directory itself or lie outside it).
  The file system calls themselves do not fail here.
\<close>

datatype fdata = Raw "nat list" | Json obj

type_synonym dir = "(string \<times> fdata) list"

definition plain :: "string \<Rightarrow> bool" where
  "plain n = (n \<noteq> [] \<and> n \<noteq> ''.'' \<and> n \<noteq> ''..'' \<and> CHR ''/'' \<notin> set n)"

definition ends_with :: "string \<Rightarrow> string \<Rightarrow> bool" where
  "ends_with sfx x = (length sfx \<le> length x \<and> drop (length x - length sfx) x = sfx)"

definition getMetadata :: "dir \<Rightarrow> string \<Rightarrow> js_error + obj" where
  "getMetadata d fname =
     (if fname = [] then Inl (Error ''Filename is required'')
      else if \<not> plain (basename fname) then Inl (Error (''Metadata not found: '' @ fname))
      else case map_of d (basename fname @ ''.meta.json'') of
        None \<Rightarrow> Inl (Error (''Metadata not found: '' @ fname))
      | Some (Raw bs) \<Rightarrow> Inl (Error ''Failed to retrieve metadata: '')
      | Some (Json metadata) \<Rightarrow> Inr metadata)"

text \<open>\<open>isExpired\<close>: the age of the file against the provider's \<open>ttlHours\<close>. A
  comparison with an invalid date is false.\<close>

definition isExpired :: "provider \<Rightarrow> (jsval \<Rightarrow> int option) \<Rightarrow> int \<Rightarrow> obj \<Rightarrow> bool" where
  "isExpired self parseDate now metadata =
     (if \<not> truthy (get_prop metadata ''createdAt'') then False
      else case date_of parseDate (get_prop metadata ''createdAt'') of
        None \<Rightarrow> False
      | Some createdAt \<Rightarrow>
          (case TimeClip (of_int createdAt + ttlHours self * 60 * 60 * 1000) of
             None \<Rightarrow> False
           | Some expires \<Rightarrow> now > expires))"

definition delete_file :: "dir \<Rightarrow> string \<Rightarrow> js_error + (bool \<times> dir)" where
  "delete_file d fname =
     (if fname = [] then Inl (Error ''Filename is required'')
      else if \<not> plain (basename fname) then Inl (Error ''Failed to delete file: '')
      else
        let b = basename fname;
            deletedFile = (map_of d b \<noteq> None);
            deletedMetadata = (map_of d (b @ ''.meta.json'') \<noteq> None)
        in Inr (deletedFile \<or> deletedMetadata,
                AList.delete (b @ ''.meta.json'') (AList.delete b d)))"

record save_result =
  saved_path :: string
  saved_size :: int
  saved_filename :: string
  saved_metadata :: obj

text \<open>\<open>save\<close> returns its result and the directory it leaves. The payload is
  written first; \<^verbatim>\<open>toISOString\<close> throws on an invalid date, which the
  \<^verbatim>\<open>catch\<close> block wraps. The clock reads of one call are one instant.\<close>

definition save :: "provider \<Rightarrow> int \<Rightarrow> dir \<Rightarrow> string \<Rightarrow> nat list \<Rightarrow> obj \<Rightarrow> (js_error + save_result) \<times> dir" where
  "save self now d fname buffer metadata =
     (if fname = [] then (Inl (Error ''Filename is required''), d)
      else
        let sanitizedFilename = basename fname
        in case getFilePath (storagePath self) sanitizedFilename of
             Inl e \<Rightarrow> (Inl e, d)
           | Inr filePath \<Rightarrow>
               if \<not> plain sanitizedFilename then (Inl (Error ''Failed to save file: ''), d)
               else
                 let d1 = AList.update sanitizedFilename (Raw buffer) d
                 in case TimeClip (of_int now + ttlHours self * 60 * 60 * 1000) of
                      None \<Rightarrow> (Inl (Error ''Failed to save file: Invalid time value''), d1)
                    | Some expires \<Rightarrow>
                        let fileMetadata =
                              [''filename'' \<mapsto> JStr sanitizedFilename,
                               ''size'' \<mapsto> JNum (of_nat (length buffer)),
                               ''createdAt'' \<mapsto> JIso now,
                               ''updatedAt'' \<mapsto> JIso now,
                               ''expiresAt'' \<mapsto> JIso expires,
                               ''ttlHours'' \<mapsto> JNum (ttlHours self)] ++ metadata
                        in (Inr \<lparr>saved_path = filePath, saved_size = int (length buffer),
                                  saved_filename = sanitizedFilename,
                                  saved_metadata = fileMetadata\<rparr>,
                            AList.update (sanitizedFilename @ ''.meta.json'') (Json fileMetadata) d1))"

text \<open>The loop of \<open>cleanupExpiredFiles\<close> over the names read from the directory; an
  error inside one round is caught and the loop goes on.\<close>

fun sweep :: "provider \<Rightarrow> (jsval \<Rightarrow> int option) \<Rightarrow> int \<Rightarrow> string list \<Rightarrow> dir \<Rightarrow> nat \<times> dir" where
  "sweep self parseDate now [] d = (0, d)"
| "sweep self parseDate now (f # fs) d =
     (case getMetadata d f of
        Inl e \<Rightarrow> sweep self parseDate now fs d
      | Inr metadata \<Rightarrow>
          if isExpired self parseDate now metadata then
            (case delete_file d f of
               Inl e \<Rightarrow> sweep self parseDate now fs d
             | Inr (b, d1) \<Rightarrow> (let (n, d2) = sweep self parseDate now fs d1 in (Suc n, d2)))
          else sweep self parseDate now fs d)"

definition videoFiles :: "dir \<Rightarrow> string list" where
  "videoFiles d = filter (\<lambda>f. \<not> ends_with ''.meta.json'' f) (map fst d)"

definition cleanupExpiredFiles :: "provider \<Rightarrow> (jsval \<Rightarrow> int option) \<Rightarrow> int \<Rightarrow> dir \<Rightarrow> js_error + (nat \<times> dir)" where
  "cleanupExpiredFiles self parseDate now d = Inr (sweep self parseDate now (videoFiles d) d)"


subsection \<open>Expiry by age and expiry as recorded\<close>


text \<open>The expiry a metadata record states: its \<open>expiresAt\<close> reads as a date that has
  passed.\<close>

definition recorded_expired :: "(jsval \<Rightarrow> int option) \<Rightarrow> int \<Rightarrow> dir \<Rightarrow> string \<Rightarrow> bool" where
  "recorded_expired parseDate now d f =
     (case map_of d (f @ ''.meta.json'') of
        Some (Json m) \<Rightarrow>
          (case date_of parseDate (get_prop m ''expiresAt'') of
             None \<Rightarrow> False
           | Some expiry \<Rightarrow> expiry < now)
      | _ \<Rightarrow> False)"



section \<open>The retention sweeper (utils/cleanup-scheduler.js)\<close>

record cleanup_results =
  filesRemoved :: jsval
  jobsCleaned :: jsval
  errors :: "string list"

text \<open>\<open>cleanup\<close>: the two sub-calls, each in its own \<^verbatim>\<open>try\<close>. The value a sub-call
  returns is read through a property: \<^verbatim>\<open>filesResult.removedCount || 0\<close> and
  \<^verbatim>\<open>jobsResult.cleanedCount || 0\<close>.\<close>

definition cleanup ::
  "provider \<Rightarrow> (jsval \<Rightarrow> int option) \<Rightarrow> rat \<Rightarrow> int \<Rightarrow> dir \<times> jm_state \<Rightarrow> cleanup_results \<times> dir \<times> jm_state" where
  "cleanup storageProvider parseDate jobRetentionHours now w =
     (let (d, st) = w;
          results = \<lparr>filesRemoved = JNum 0, jobsCleaned = JNum 0, errors = []\<rparr>;
          (results1, d1) =
            (case cleanupExpiredFiles storageProvider parseDate now d of
               Inl (Error m) \<Rightarrow>
                 (results\<lparr>errors := errors results @ [''Failed to cleanup expired files: '' @ m]\<rparr>, d)
             | Inr (n, d') \<Rightarrow>
                 (results\<lparr>filesRemoved := js_or (prop_of st (JNum (of_nat n)) ''removedCount'') (JNum 0)\<rparr>, d'));
          (results2, st1) =
            (case cleanupExpiredJobs parseDate now jobRetentionHours st of
               Inl (Error m) \<Rightarrow>
                 (results1\<lparr>errors := errors results1 @ [''Failed to cleanup expired jobs: '' @ m]\<rparr>, st)
             | Inr (n, st') \<Rightarrow>
                 (results1\<lparr>jobsCleaned := js_or (prop_of st' (JNum (of_nat n)) ''cleanedCount'') (JNum 0)\<rparr>, st'))
      in (results2, d1, st1))"


section \<open>Request authentication (the signature verifier middleware)\<close>

text \<open>
  The library functions the verifier calls are parameters: \<open>hmac secret message\<close> is
  the hex digest of \<^verbatim>\<open>crypto.createHmac('sha256', secret)\<close> over the message,
  \<open>number\<close> is \<^verbatim>\<open>Number\<close> on a header value (\<open>None\<close> for NaN; whole seconds), and
  \<open>stringify\<close> is \<^verbatim>\<open>JSON.stringify\<close> on the parsed body. An absent header is \<open>None\<close>.
\<close>

definition TIMESTAMP_TOLERANCE_MS :: int where
  "TIMESTAMP_TOLERANCE_MS = 5 * 60 * 1000"

definition generateSignature :: "(string \<Rightarrow> string \<Rightarrow> string) \<Rightarrow> string \<Rightarrow> string \<Rightarrow> string \<Rightarrow> js_error + string" where
  "generateSignature hmac timestampStr bodyStr secret =
     (if secret = [] then Inl (Error ''Secret key is required for signature generation'')
      else Inr (hmac secret (timestampStr @ '':'' @ bodyStr)))"

text \<open>\<open>timingSafeEqual\<close> on two strings: false when the lengths differ, else the
  comparison of their bytes.\<close>

definition timingSafeEqual :: "string \<Rightarrow> string \<Rightarrow> bool" where
  "timingSafeEqual a b = (if length a \<noteq> length b then False else a = b)"

definition validateTimestamp :: "(string \<Rightarrow> int option) \<Rightarrow> int \<Rightarrow> string \<Rightarrow> bool" where
  "validateTimestamp number now ts =
     (case number ts of
        None \<Rightarrow> False
      | Some timestampNum \<Rightarrow>
          if timestampNum \<le> 0 then False
          else if \<bar>now - timestampNum * 1000\<bar> > TIMESTAMP_TOLERANCE_MS then False
          else True)"

definition toLowerCase :: "string \<Rightarrow> string" where
  "toLowerCase s =
     map (\<lambda>c. if (65::nat) \<le> of_char c \<and> of_char c \<le> (90::nat)
              then char_of (of_char c + (32::nat)) else c) s"

datatype verdict = Next | Status nat string

definition verifySignature ::
  "(string \<Rightarrow> string \<Rightarrow> string) \<Rightarrow> (string \<Rightarrow> int option) \<Rightarrow> ('b \<Rightarrow> string) \<Rightarrow> int \<Rightarrow>
   string \<Rightarrow> string option \<Rightarrow> string option \<Rightarrow> 'b \<Rightarrow> verdict" where
  "verifySignature hmac number stringify now secret signature ts body =
     (if secret = [] then Status 500 ''Server configuration error''
      else case signature of
        None \<Rightarrow> Status 401 ''Missing authentication header''
      | Some sg \<Rightarrow>
          if sg = [] then Status 401 ''Missing authentication header''
          else case ts of
            None \<Rightarrow> Status 401 ''Missing authentication header''
          | Some t \<Rightarrow>
              if t = [] then Status 401 ''Missing authentication header''
              else if \<not> validateTimestamp number now t then Status 401 ''Invalid timestamp''
              else case generateSignature hmac t (stringify body) secret of
                Inl e \<Rightarrow> Status 500 ''Signature verification error''
              | Inr expectedSignature \<Rightarrow>
                  if timingSafeEqual (toLowerCase sg) (toLowerCase expectedSignature) then Next
                  else Status 401 ''Invalid signature'')"

section \<open>Well-formed states and the inputs of the examples\<close>

text \<open>The entries of the \<^verbatim>\<open>Map\<close> have distinct keys and distinct, allocated job
  objects.\<close>

definition store_ok :: "jm_state \<Rightarrow> bool" where
  "store_ok st =
     (distinct (map fst (jobs st)) \<and> distinct (map snd (jobs st))
      \<and> (\<forall>a \<in> snd ` set (jobs st). a < fresh st \<and> heap st a \<noteq> None))"

text \<open>The operations that leave a terminal job \<open>jobId\<close> terminal: any operation on
  another job, \<open>setJobCompleted\<close>, \<open>setJobFailed\<close>, and \<open>updateJobStatus\<close> with a terminal
  status and no \<open>status\<close> in the data it merges.\<close>

fun keeps_terminal :: "string \<Rightarrow> store_op \<Rightarrow> bool" where
  "keeps_terminal jobId (UpdateJobStatus now i status additionalData) =
     (i = jobId \<longrightarrow> (status = ''completed'' \<or> status = ''failed'') \<and> additionalData ''status'' = None)"
| "keeps_terminal jobId (SetJobCompleted now i resultData) = True"
| "keeps_terminal jobId (SetJobFailed now i errorMessage errorStack) = True"

definition no_patch :: obj where
  "no_patch = Map.empty"

text \<open>A request body with a falsy theme and a field the job store does not know, and
  the descriptor of a saved video; a store with one pending job made from the request.\<close>

definition demo_request :: obj where
  "demo_request =
     [''tweetBody'' \<mapsto> JStr ''hello'', ''profileName'' \<mapsto> JStr ''Ann'',
      ''username'' \<mapsto> JStr ''ann'', ''theme'' \<mapsto> JStr [], ''admin'' \<mapsto> JBool True]"

definition demo_result :: obj where
  "demo_result = [''filename'' \<mapsto> JStr ''v.mp4'', ''fileSize'' \<mapsto> JNum 10]"

definition demo_heap :: jm_state where
  "demo_heap = snd (alloc demo_result (snd (alloc demo_request empty_store)))"

definition demo_store :: jm_state where
  "demo_store =
     (case createJob 1000 ''job-1'' (JRef 0) demo_heap of Inl e \<Rightarrow> demo_heap | Inr (i, st) \<Rightarrow> st)"

definition completed_store :: jm_state where
  "completed_store = apply_op (SetJobCompleted 2000 ''job-1'' (JRef 1)) demo_store"

definition failed_store :: jm_state where
  "failed_store = apply_op (SetJobFailed 2000 ''job-1'' (JStr ''render failed'') JNull) demo_store"

definition later_ops :: "store_op list" where
  "later_ops =
     [SetJobFailed 3000 ''job-1'' (JStr ''late error'') JNull,
      UpdateJobStatus 4000 ''job-1'' ''completed'' no_patch,
      UpdateJobStatus 5000 ''job-2'' ''pending'' no_patch,
      SetJobCompleted 6000 ''job-1'' (JRef 1)]"

text \<open>A caller reads the job and assigns \<^verbatim>\<open>job.request.tweetBody\<close> of what it got.\<close>

definition handed_out :: "jsval \<times> jm_state" where
  "handed_out = getJob ''job-1'' demo_store"

definition tampered_store :: jm_state where
  "tampered_store =
     write_prop (prop_of (snd handed_out) (fst handed_out) ''request'') ''tweetBody''
       (JStr ''tampered'') (snd handed_out)"


text \<open>A task is \<open>active\<close> while it waits for a stage of the pipeline. The states the
  worker keeps to: the store is well formed; the tasks have distinct job ids, all
  registered in \<open>processingJobs\<close>; \<open>currentJobCount\<close> is the number of tasks that have
  not run their \<^verbatim>\<open>finally\<close> block, and is within the limit; a job in status
  \<open>processing\<close> has an active task; the job id of an active task is not empty.\<close>

definition active :: "phase \<Rightarrow> bool" where
  "active p = (p = Rendering \<or> p = Composing \<or> p = Saving)"

definition sys_ok :: "sys \<Rightarrow> bool" where
  "sys_ok s =
     (store_ok (store s)
      \<and> distinct (map fst (tasks s))
      \<and> set (map fst (tasks s)) \<subseteq> set (processingJobs s)
      \<and> currentJobCount s = int (length (filter unfinished (tasks s)))
      \<and> currentJobCount s \<le> maxConcurrentJobs s
      \<and> (\<forall>i. job_field (store s) i ''status'' = JStr ''processing''
             \<longrightarrow> (\<exists>p. map_of (tasks s) i = Some p \<and> active p))
      \<and> (\<forall>i p. map_of (tasks s) i = Some p \<longrightarrow> active p \<longrightarrow> i \<noteq> []))"







text \<open>
  The examples hold no date but the timestamps the code writes itself, so the reading
  of other strings and of objects as dates plays no part in them; they are run with a
  reading under which none of those is a date.
\<close>

definition timestamps_only :: "jsval \<Rightarrow> int option" where
  "timestamps_only v = None"

text \<open>Three requests arrive, then the poll timer fires; and a longer run in which the
  first job goes on through the pipeline, the second fails while rendering and its
  task ends, and the timer fires again while the first tick still waits: the third job
  is admitted.\<close>

definition demo_artifact :: artifact where
  "demo_artifact =
     \<lparr>filename = ''2026-01-01_abc.mp4'', downloadUrl = ''http://localhost:3000/download/2026-01-01_abc.mp4'',
      expiresAt = 24 * 60 * 60 * 1000, fileSize = 1024\<rparr>"

definition first_tick :: "event list" where
  "first_tick =
     [Create 1 ''a'' (JRef 0), Create 2 ''b'' (JRef 0), Create 3 ''c'' (JRef 0), Tick 10]"

definition busy_run :: "event list" where
  "busy_run =
     first_tick @
     [StageOk 11 ''a'' demo_artifact, StageErr 12 ''b'' (JStr ''Failed to generate screenshot: timeout'') JNull,
      StageOk 13 ''a'' demo_artifact, Tick 14, Released ''b'', Settle ''b'', Tick 15]"



text \<open>One job is admitted by a tick; then its task runs to the end of its
  \<^verbatim>\<open>finally\<close> block while the timer fires once more.\<close>

definition one_admitted :: sys where
  "one_admitted = run timestamps_only [Create 1 ''a'' (JRef 0), Tick 10] (new_worker demo_heap (Some 2))"

definition task_runs :: "event list" where
  "task_runs =
     [StageOk 11 ''a'' demo_artifact, StageOk 12 ''a'' demo_artifact, Tick 13,
      StageOk 14 ''a'' demo_artifact, Released ''a'']"

text \<open>A provider with the default time to live of 24 hours and one configured with
  48 hours. A storage directory holding one video saved at time 0 by the first, and
  one saved 20 hours later; the instant 30 hours after the first save.\<close>

definition hour :: int where
  "hour = 60 * 60 * 1000"

definition default_provider :: provider where
  "default_provider = LocalStorageProvider \<lparr>config_storagePath = None, config_ttlHours = None\<rparr>"

definition two_day_provider :: provider where
  "two_day_provider = LocalStorageProvider \<lparr>config_storagePath = None, config_ttlHours = Some 48\<rparr>"

definition one_video :: dir where
  "one_video = snd (save default_provider 0 [] ''a.mp4'' [1, 2, 3] Map.empty)"

definition two_videos :: dir where
  "two_videos = snd (save default_provider (20 * hour) one_video ''b.mp4'' [4, 5] Map.empty)"


section \<open>Properties of the job store\<close>

lemmas demo_defs = demo_store_def demo_heap_def demo_request_def demo_result_def empty_store_def
  alloc_def createJob_def request_literal_def result_literal_def js_or_def prop_of_def get_prop_def
  job_field_def job_obj_def Let_def no_patch_def completed_store_def failed_store_def
  setJobCompleted_def setJobFailed_def updateJobStatus_def valid_status_def terminal_def
  handed_out_def tampered_store_def getJob_def write_prop_def

lemma store_ok_addr:
  assumes "store_ok st" "map_of (jobs st) i = Some a"
  shows "a < fresh st" "heap st a \<noteq> None"
proof -
  from assms(2) have "a \<in> snd ` set (jobs st)"
    by (metis map_of_SomeD image_eqI snd_conv)
  with assms(1) show "a < fresh st" "heap st a \<noteq> None"
    unfolding store_ok_def by blast+
qed

lemma store_ok_inj:
  assumes "store_ok st" "map_of (jobs st) i = Some a" "map_of (jobs st) i' = Some a"
  shows "i' = i"
proof -
  from assms have "(i, a) \<in> set (jobs st)" "(i', a) \<in> set (jobs st)"
    by (auto dest: map_of_SomeD)
  with assms(1) show ?thesis
    unfolding store_ok_def by (metis distinct_map inj_on_def snd_conv prod.inject)
qed

text \<open>An operation that rewrites the object of one job and allocates new objects leaves
  the other jobs as they are.\<close>

lemma touch_job:
  assumes ok: "store_ok st" and a: "map_of (jobs st) i = Some a"
    and j: "jobs st' = jobs st" and f: "fresh st \<le> fresh st'"
    and h: "heap st' a = Some ob'"
    and o: "\<And>b. b < fresh st \<Longrightarrow> b \<noteq> a \<Longrightarrow> heap st' b = heap st b"
  shows "store_ok st'" "job_obj st' i = Some (a, ob')" "\<And>i'. i' \<noteq> i \<Longrightarrow> job_obj st' i' = job_obj st i'"
proof -
  show "store_ok st'"
    unfolding store_ok_def
  proof (intro conjI ballI)
    fix b assume b: "b \<in> snd ` set (jobs st')"
    with ok j have 1: "b < fresh st" "heap st b \<noteq> None" unfolding store_ok_def by auto
    from 1 f show "b < fresh st'" by simp
    show "heap st' b \<noteq> None"
    proof (cases "b = a")
      case True with h show ?thesis by simp
    next
      case False with o 1 show ?thesis by simp
    qed
  qed (use ok j in \<open>auto simp: store_ok_def\<close>)
  show "job_obj st' i = Some (a, ob')"
    using a j h by (simp add: job_obj_def)
  fix i' assume ne: "i' \<noteq> i"
  show "job_obj st' i' = job_obj st i'"
  proof (cases "map_of (jobs st) i'")
    case None
    then show ?thesis using j by (simp add: job_obj_def)
  next
    case (Some b)
    with ok a ne have "b \<noteq> a" using store_ok_inj by blast
    moreover from ok Some have "b < fresh st" by (rule store_ok_addr)
    ultimately have "heap st' b = heap st b" using o by simp
    with Some j show ?thesis by (simp add: job_obj_def)
  qed
qed

lemma job_obj_SomeD: "job_obj st i = Some (a, ob) \<Longrightarrow> map_of (jobs st) i = Some a \<and> heap st a = Some ob"
  by (auto simp: job_obj_def split: option.splits)

lemma updateJobStatus_effect:
  assumes ok: "store_ok st" and u: "updateJobStatus now i s p st = Inr st'"
  shows "store_ok st'" "jobs st' = jobs st"
    "\<And>i'. i' \<noteq> i \<Longrightarrow> job_obj st' i' = job_obj st i'"
    "p ''status'' = None \<Longrightarrow> job_field st' i ''status'' = JStr s"
proof -
  from u obtain a job where jo: "job_obj st i = Some (a, job)"
    by (auto simp: updateJobStatus_def split: if_splits option.splits)
  then have a: "map_of (jobs st) i = Some a" by (simp add: job_obj_SomeD)
  from u jo obtain ob' where st': "st' = st\<lparr>heap := (heap st)(a \<mapsto> ob')\<rparr>"
    and ob': "p ''status'' = None \<Longrightarrow> ob' ''status'' = Some (JStr s)"
    by (auto simp: updateJobStatus_def Let_def map_add_def split: if_splits)
  have t: "store_ok st' \<and> job_obj st' i = Some (a, ob') \<and> (\<forall>i'. i' \<noteq> i \<longrightarrow> job_obj st' i' = job_obj st i')"
    using touch_job[OF ok a, of st' ob'] st' by simp
  from t show "store_ok st'" by simp
  from st' show "jobs st' = jobs st" by simp
  from t show "\<And>i'. i' \<noteq> i \<Longrightarrow> job_obj st' i' = job_obj st i'" by simp
  assume "p ''status'' = None"
  with ob' t show "job_field st' i ''status'' = JStr s"
    by (simp add: job_field_def get_prop_def)
qed

lemma updateJobProgress_effect:
  assumes ok: "store_ok st" and u: "updateJobProgress now i stp pc st = Inr st'"
  shows "store_ok st'" "jobs st' = jobs st"
    "\<And>i'. i' \<noteq> i \<Longrightarrow> job_obj st' i' = job_obj st i'"
    "job_field st' i ''status'' = job_field st i ''status''"
proof -
  from u obtain a job where jo: "job_obj st i = Some (a, job)"
    by (auto simp: updateJobProgress_def split: if_splits option.splits)
  then have a: "map_of (jobs st) i = Some a" by (simp add: job_obj_SomeD)
  from u jo obtain ob' where st': "st' = st\<lparr>heap := (heap st)(a \<mapsto> ob')\<rparr>"
    and ob': "ob' ''status'' = job ''status''"
    by (auto simp: updateJobProgress_def Let_def split: if_splits)
  have t: "store_ok st' \<and> job_obj st' i = Some (a, ob') \<and> (\<forall>i'. i' \<noteq> i \<longrightarrow> job_obj st' i' = job_obj st i')"
    using touch_job[OF ok a, of st' ob'] st' by simp
  from t show "store_ok st'" by simp
  from st' show "jobs st' = jobs st" by simp
  from t show "\<And>i'. i' \<noteq> i \<Longrightarrow> job_obj st' i' = job_obj st i'" by simp
  from ob' t jo show "job_field st' i ''status'' = job_field st i ''status''"
    by (simp add: job_field_def get_prop_def)
qed

lemma setJobCompleted_effect:
  assumes ok: "store_ok st" and u: "setJobCompleted now i rd st = Inr st'"
  shows "store_ok st'" "jobs st' = jobs st"
    "\<And>i'. i' \<noteq> i \<Longrightarrow> job_obj st' i' = job_obj st i'"
    "job_field st' i ''status'' = JStr ''completed''"
proof -
  from u obtain a job where jo: "job_obj st i = Some (a, job)"
    by (auto simp: setJobCompleted_def split: if_splits option.splits)
  then have a: "map_of (jobs st) i = Some a" by (simp add: job_obj_SomeD)
  from ok a have lt: "a < fresh st" by (rule store_ok_addr)
  from u jo obtain ob' where st': "jobs st' = jobs st" "fresh st \<le> fresh st'" "heap st' a = Some ob'"
      "\<And>b. b < fresh st \<Longrightarrow> b \<noteq> a \<Longrightarrow> heap st' b = heap st b"
    and ob': "ob' ''status'' = Some (JStr ''completed'')"
    by (auto simp: setJobCompleted_def Let_def alloc_def split: if_splits)
  have t: "store_ok st' \<and> job_obj st' i = Some (a, ob') \<and> (\<forall>i'. i' \<noteq> i \<longrightarrow> job_obj st' i' = job_obj st i')"
    using touch_job[OF ok a st'(1) st'(2) st'(3) st'(4)] by simp
  from t show "store_ok st'" by simp
  from st' show "jobs st' = jobs st" by simp
  from t show "\<And>i'. i' \<noteq> i \<Longrightarrow> job_obj st' i' = job_obj st i'" by simp
  from ob' t show "job_field st' i ''status'' = JStr ''completed''"
    by (simp add: job_field_def get_prop_def)
qed

lemma setJobFailed_effect:
  assumes ok: "store_ok st" and u: "setJobFailed now i m stk st = Inr st'"
  shows "store_ok st'" "jobs st' = jobs st"
    "\<And>i'. i' \<noteq> i \<Longrightarrow> job_obj st' i' = job_obj st i'"
    "job_field st' i ''status'' = JStr ''failed''"
proof -
  from u obtain a job where jo: "job_obj st i = Some (a, job)"
    by (auto simp: setJobFailed_def split: if_splits option.splits)
  then have a: "map_of (jobs st) i = Some a" by (simp add: job_obj_SomeD)
  from ok a have lt: "a < fresh st" by (rule store_ok_addr)
  from u jo obtain ob' where st': "jobs st' = jobs st" "fresh st \<le> fresh st'" "heap st' a = Some ob'"
      "\<And>b. b < fresh st \<Longrightarrow> b \<noteq> a \<Longrightarrow> heap st' b = heap st b"
    and ob': "ob' ''status'' = Some (JStr ''failed'')"
    by (auto simp: setJobFailed_def Let_def alloc_def split: if_splits)
  have t: "store_ok st' \<and> job_obj st' i = Some (a, ob') \<and> (\<forall>i'. i' \<noteq> i \<longrightarrow> job_obj st' i' = job_obj st i')"
    using touch_job[OF ok a st'(1) st'(2) st'(3) st'(4)] by simp
  from t show "store_ok st'" by simp
  from st' show "jobs st' = jobs st" by simp
  from t show "\<And>i'. i' \<noteq> i \<Longrightarrow> job_obj st' i' = job_obj st i'" by simp
  from ob' t show "job_field st' i ''status'' = JStr ''failed''"
    by (simp add: job_field_def get_prop_def)
qed

lemma apply_op_keeps:
  assumes ok: "store_ok st" and t: "terminal (job_field st j ''status'')" and k: "keeps_terminal j op"
  shows "store_ok (apply_op op st) \<and> terminal (job_field (apply_op op st) j ''status'')"
proof (cases op)
  case (UpdateJobStatus now i s p)
  show ?thesis
  proof (cases "updateJobStatus now i s p st")
    case (Inl e)
    with UpdateJobStatus ok t show ?thesis by simp
  next
    case (Inr st')
    note e = updateJobStatus_effect[OF ok Inr]
    show ?thesis
    proof (cases "i = j")
      case True
      with k UpdateJobStatus have "terminal (JStr s)" "p ''status'' = None" by (auto simp: terminal_def)
      with e(4) e(1) True UpdateJobStatus Inr show ?thesis by simp
    next
      case False
      with e(3)[of j] have "job_field st' j ''status'' = job_field st j ''status''" by (simp add: job_field_def)
      with e(1) t UpdateJobStatus Inr show ?thesis by simp
    qed
  qed
next
  case (SetJobCompleted now i rd)
  show ?thesis
  proof (cases "setJobCompleted now i rd st")
    case (Inl e)
    with SetJobCompleted ok t show ?thesis by simp
  next
    case (Inr st')
    note e = setJobCompleted_effect[OF ok Inr]
    show ?thesis
    proof (cases "i = j")
      case True
      with e(4) e(1) SetJobCompleted Inr show ?thesis by (simp add: terminal_def)
    next
      case False
      with e(3)[of j] have "job_field st' j ''status'' = job_field st j ''status''" by (simp add: job_field_def)
      with e(1) t SetJobCompleted Inr show ?thesis by simp
    qed
  qed
next
  case (SetJobFailed now i m stk)
  show ?thesis
  proof (cases "setJobFailed now i m stk st")
    case (Inl e)
    with SetJobFailed ok t show ?thesis by simp
  next
    case (Inr st')
    note e = setJobFailed_effect[OF ok Inr]
    show ?thesis
    proof (cases "i = j")
      case True
      with e(4) e(1) SetJobFailed Inr show ?thesis by (simp add: terminal_def)
    next
      case False
      with e(3)[of j] have "job_field st' j ''status'' = job_field st j ''status''" by (simp add: job_field_def)
      with e(1) t SetJobFailed Inr show ?thesis by simp
    qed
  qed
qed

lemma apply_ops_keep:
  "store_ok st \<Longrightarrow> terminal (job_field st j ''status'') \<Longrightarrow> \<forall>op \<in> set ops. keeps_terminal j op
   \<Longrightarrow> store_ok (apply_ops ops st) \<and> terminal (job_field (apply_ops ops st) j ''status'')"
  unfolding apply_ops_def
proof (induction ops arbitrary: st)
  case Nil
  then show ?case by simp
next
  case (Cons op ops)
  from Cons.prems have "store_ok (apply_op op st) \<and> terminal (job_field (apply_op op st) j ''status'')"
    using apply_op_keeps by simp
  with Cons.IH[of "apply_op op st"] Cons.prems(3) show ?case by simp
qed


text \<open>
  Claim C10. For every request that \<open>createJob\<close> accepts (a truthy \<open>requestData\<close>), the
  job is stored and its \<open>request\<close> field refers to an object with exactly the five keys
  \<open>tweetBody\<close>, \<open>profilePhotoUrl\<close>, \<open>profileName\<close>, \<open>username\<close> and \<open>theme\<close>; each holds
  the caller's value when that is truthy and null when it is absent or falsy. Nothing
  else of the caller's object is kept.
\<close>

theorem createJob_normalizes_request:
  "truthy requestData \<Longrightarrow>
   \<exists>st' r ob. createJob now jobId requestData st = Inr (jobId, st')
     \<and> job_field st' jobId ''request'' = JRef r \<and> heap st' r = Some ob
     \<and> dom ob = {''tweetBody'', ''profilePhotoUrl'', ''profileName'', ''username'', ''theme''}
     \<and> (\<forall>k \<in> dom ob. ob k = Some (if truthy (prop_of st requestData k)
                                      then prop_of st requestData k else JNull))"
  by (simp add: createJob_def alloc_def job_field_def job_obj_def get_prop_def Let_def
      request_literal_def js_or_def update_conv') auto

theorem createJob_normalizes_request_witness:
  "truthy (JRef 0)
   \<and> (\<exists>st' r ob. createJob 1000 ''job-1'' (JRef 0) demo_heap = Inr (''job-1'', st')
        \<and> job_field st' ''job-1'' ''request'' = JRef r \<and> heap st' r = Some ob
        \<and> dom ob = {''tweetBody'', ''profilePhotoUrl'', ''profileName'', ''username'', ''theme''}
        \<and> (\<forall>k \<in> dom ob. ob k = Some (if truthy (prop_of demo_heap (JRef 0) k)
                                         then prop_of demo_heap (JRef 0) k else JNull))
        \<and> ob ''theme'' = Some JNull \<and> ob ''tweetBody'' = Some (JStr ''hello'')
        \<and> ob ''admin'' = None)"
  using createJob_normalizes_request [of "JRef 0" 1000 "''job-1''" demo_heap]
  by (simp add: demo_defs)

text \<open>
  Claim C1, as stated: once a job is \<open>completed\<close> or \<open>failed\<close>, no operation changes its
  status. The store has no such guard: \<open>updateJobStatus\<close> assigns the status it is given.
  Here a completed job is set back to \<open>pending\<close>.
\<close>

theorem status_reset_counterexample:
  "job_field completed_store ''job-1'' ''status'' = JStr ''completed''
   \<and> job_field (apply_op (UpdateJobStatus 3000 ''job-1'' ''pending'' no_patch) completed_store)
        ''job-1'' ''status'' = JStr ''pending''"
  by (simp add: demo_defs)

text \<open>
  Claim C1, amended. A job that is \<open>completed\<close> or \<open>failed\<close> stays in one of these two
  statuses under every sequence of \<open>setJobCompleted\<close>, \<open>setJobFailed\<close> (either may replace
  one terminal status by the other), operations on other jobs, and \<open>updateJobStatus\<close>
  calls on it that pass a terminal status and merge no \<open>status\<close> field.
\<close>

theorem terminal_status_kept:
  "store_ok st \<Longrightarrow> terminal (job_field st jobId ''status'')
   \<Longrightarrow> \<forall>op \<in> set ops. keeps_terminal jobId op
   \<Longrightarrow> terminal (job_field (apply_ops ops st) jobId ''status'')"
  using apply_ops_keep by blast

theorem terminal_status_kept_witness:
  "store_ok completed_store \<and> terminal (job_field completed_store ''job-1'' ''status'')
   \<and> list_all (keeps_terminal ''job-1'') later_ops
   \<and> terminal (job_field (apply_ops later_ops completed_store) ''job-1'' ''status'')"
proof -
  have 1: "store_ok completed_store" by (simp add: store_ok_def demo_defs)
  have 2: "terminal (job_field completed_store ''job-1'' ''status'')" by (simp add: demo_defs)
  have 3: "\<forall>op \<in> set later_ops. keeps_terminal ''job-1'' op"
    by (simp add: later_ops_def no_patch_def)
  from terminal_status_kept [OF 1 2 3] 1 2 3 show ?thesis by (simp add: list_all_iff)
qed

text \<open>
  Claim C4 says that \<open>completedAt\<close> is never overwritten once set. \<open>updateJobStatus\<close>
  guards the assignment, \<open>setJobCompleted\<close> and \<open>setJobFailed\<close> do not: a job that failed
  at time 2000 and is then completed at time 3000 has its \<open>completedAt\<close> replaced.
\<close>

theorem completedAt_overwritten:
  "job_field failed_store ''job-1'' ''completedAt'' = JIso 2000
   \<and> job_field (apply_op (SetJobCompleted 3000 ''job-1'' (JRef 1)) failed_store)
        ''job-1'' ''completedAt'' = JIso 3000"
  by (simp add: demo_defs)

text \<open>
  Claim C3 says that what an accessor returns is independent of the store's record,
  nested fields included. \<open>getJob\<close> returns a new object, but the new object holds the
  same reference to the \<open>request\<close> object as the job: after the caller assigns
  \<^verbatim>\<open>job.request.tweetBody\<close> on what it received, the store's record reads the new
  value.
\<close>

theorem getJob_copy_shares_request:
  "prop_of demo_store (job_field demo_store ''job-1'' ''request'') ''tweetBody'' = JStr ''hello''
   \<and> fst handed_out \<noteq> JRef (the (map_of (jobs demo_store) ''job-1''))
   \<and> prop_of tampered_store (job_field tampered_store ''job-1'' ''request'') ''tweetBody''
       = JStr ''tampered''"
  by (simp add: demo_defs)


section \<open>Properties of the artifact store\<close>

lemmas dir_defs = one_video_def two_videos_def default_provider_def two_day_provider_def
  LocalStorageProvider_def save_def getFilePath_def basename_def plain_def TimeClip_def
  hour_def Let_def cleanupExpiredFiles_def videoFiles_def ends_with_def getMetadata_def
  isExpired_def get_prop_def delete_file_def map_add_def recorded_expired_def
  timestamps_only_def

text \<open>
  Claim C6 says that every path the store reads or writes lies inside the storage
  root. A traversal attempt does collapse to its last segment (\<^verbatim>\<open>../../../etc/passwd\<close>
  is stored as \<^verbatim>\<open>passwd\<close> inside the root), but \<^verbatim>\<open>path.basename\<close> leaves the name
  \<^verbatim>\<open>..\<close> as it is: with the root \<^verbatim>\<open>/data/videos\<close> the file path of \<^verbatim>\<open>..\<close> is the
  parent directory \<^verbatim>\<open>/data\<close> and its metadata path is \<^verbatim>\<open>/data.meta.json\<close>, both
  outside the root.
\<close>

theorem dotdot_leaves_storage_root:
  "getFilePath ''/data/videos'' ''../../../etc/passwd'' = Inr ''/data/videos/passwd''
   \<and> inside_root ''/data/videos'' ''/data/videos/passwd''
   \<and> getFilePath ''/data/videos'' ''..'' = Inr ''/data''
   \<and> getMetadataPath ''/data/videos'' ''..'' = Inr ''/data.meta.json''
   \<and> \<not> inside_root ''/data/videos'' ''/data''
   \<and> \<not> inside_root ''/data/videos'' ''/data.meta.json''"
  by (simp add: getFilePath_def getMetadataPath_def basename_def path_join_def normalize_def
      inside_root_def Let_def)

















text \<open>The example holds under every reading of other strings and of objects as
  dates, since the two records hold timestamps only.\<close>

lemma recorded_expiry_ignored_under_any_reading:
  "recorded_expired parseDate (30 * hour) one_video ''a.mp4''
   \<and> cleanupExpiredFiles two_day_provider parseDate (30 * hour) one_video = Inr (0, one_video)"
  by (simp add: dir_defs)



text \<open>
  A time to live need not be a whole number of hours: a provider configured with a
  ten-thousandth of an hour (360 milliseconds) sweeps, one and a half seconds after
  the save, the video that the default provider wrote with an \<open>expiresAt\<close> a day away.
  And a record whose \<open>createdAt\<close> is the number 0 is kept however old it is.
\<close>

lemma short_ttl_sweeps_fresh_video:
  "map_sum id fst
     (cleanupExpiredFiles
        (LocalStorageProvider \<lparr>config_storagePath = None, config_ttlHours = Some (1 / 10000)\<rparr>)
        timestamps_only 1500 one_video) = Inr 1
   \<and> \<not> recorded_expired timestamps_only 1500 one_video ''a.mp4''"
  by (simp add: dir_defs)

text \<open>A \<open>createdAt\<close> that the caller of \<open>save\<close> supplied as a date string counts with
  the instant it is read as: where \<^verbatim>\<open>new Date('1970-01-01')\<close> is the epoch, the video
  is swept after 30 hours.\<close>

lemma string_createdAt_read_as_date:
  "parseDate (JStr ''1970-01-01'') = Some 0 \<Longrightarrow>
   map_sum id fst
     (cleanupExpiredFiles default_provider parseDate (30 * hour)
        (snd (save default_provider (29 * hour) [] ''s.mp4'' [7]
                [''createdAt'' \<mapsto> JStr ''1970-01-01'']))) = Inr 1"
  by (simp add: dir_defs)

lemma zero_createdAt_never_swept:
  "cleanupExpiredFiles self parseDate now
     [(''z.mp4'', Raw []), (''z.mp4.meta.json'', Json [''createdAt'' \<mapsto> JNum 0])]
   = Inr (0, [(''z.mp4'', Raw []), (''z.mp4.meta.json'', Json [''createdAt'' \<mapsto> JNum 0])])"
  by (simp add: cleanupExpiredFiles_def videoFiles_def ends_with_def getMetadata_def
      basename_def plain_def isExpired_def get_prop_def)

section \<open>Properties of the retention sweeper\<close>

text \<open>
  Claim C8 says that the counts \<open>cleanup\<close> reports are the counts its sub-calls
  returned. Both sub-calls return a number, and \<open>cleanup\<close> reads the property
  \<open>removedCount\<close> (\<open>cleanedCount\<close>) of that number, which is undefined: with one expired
  video in the directory and one stale job in the store, each sub-call removes and
  returns one, both succeed, and \<open>cleanup\<close> reports zero files and zero jobs.
\<close>

theorem cleanup_reports_zero:
  "map_sum id fst (cleanupExpiredFiles default_provider timestamps_only (30 * hour) two_videos)
     = Inr 1
   \<and> map_sum id fst (cleanupExpiredJobs timestamps_only (30 * hour) 1 demo_store) = Inr 1
   \<and> fst (cleanup default_provider timestamps_only 1 (30 * hour) (two_videos, demo_store))
       = \<lparr>filesRemoved = JNum 0, jobsCleaned = JNum 0, errors = []\<rparr>"
  by (simp add: dir_defs cleanup_def cleanupExpiredJobs_def created_before_def demo_defs)

text \<open>More generally, whenever the job sub-call succeeds, \<open>cleanup\<close> reports zero files
  and zero jobs and no error, whatever was removed.\<close>

lemma cleanup_counts_are_zero:
  "cleanupExpiredJobs parseDate now jobRetentionHours st = Inr (n, st') \<Longrightarrow>
   cleanup storageProvider parseDate jobRetentionHours now (d, st) = (r, w) \<Longrightarrow>
   filesRemoved r = JNum 0 \<and> jobsCleaned r = JNum 0 \<and> errors r = []"
  by (auto simp: cleanup_def cleanupExpiredFiles_def prop_of_def js_or_def split: prod.splits)

section \<open>Properties of the request authentication\<close>

text \<open>Whatever the digest function is: a request that carries the digest of
  \<open>timestamp:body\<close> under the server's secret and a timestamp at most five minutes from
  the clock passes, and a request whose timestamp is further off is rejected, signed
  or not.\<close>

lemma fresh_signed_request_passes:
  assumes "secret \<noteq> []" "t \<noteq> []" "number t = Some n" "0 < n" "\<bar>now - n * 1000\<bar> \<le> 5 * 60 * 1000"
    and "hmac secret (t @ '':'' @ stringify body) \<noteq> []"
  shows "verifySignature hmac number stringify now secret
           (Some (hmac secret (t @ '':'' @ stringify body))) (Some t) body = Next"
  using assms
  by (simp add: verifySignature_def validateTimestamp_def generateSignature_def
      timingSafeEqual_def TIMESTAMP_TOLERANCE_MS_def)

lemma stale_request_rejected:
  assumes "number t = Some n" "\<bar>now - n * 1000\<bar> > 5 * 60 * 1000"
  shows "verifySignature hmac number stringify now secret signature (Some t) body \<noteq> Next"
  using assms
  by (simp add: verifySignature_def validateTimestamp_def TIMESTAMP_TOLERANCE_MS_def
      split: option.splits)

section \<open>Properties of the worker pool\<close>

subsection \<open>What the operations of the job store change\<close>

lemma alloc_effect:
  assumes "store_ok st" "alloc ob st = (c, st')"
  shows "store_ok st'" "jobs st' = jobs st" "\<And>i. job_obj st' i = job_obj st i"
proof -
  from assms(2) have st': "jobs st' = jobs st" "fresh st' = Suc (fresh st)"
      "\<And>b. b < fresh st \<Longrightarrow> heap st' b = heap st b"
    by (auto simp: alloc_def)
  show "jobs st' = jobs st" by fact
  from assms(1) st' show "store_ok st'"
    unfolding store_ok_def by (auto simp: less_Suc_eq)
  fix i
  show "job_obj st' i = job_obj st i"
  proof (cases "map_of (jobs st) i")
    case None
    with st' show ?thesis by (simp add: job_obj_def)
  next
    case (Some a)
    with assms(1) have "a < fresh st" by (rule store_ok_addr)
    with st' Some show ?thesis by (simp add: job_obj_def)
  qed
qed

lemma getJob_effect:
  assumes "store_ok st" "getJob i st = (v, st')"
  shows "store_ok st'" "jobs st' = jobs st" "\<And>i'. job_obj st' i' = job_obj st i'"
    "truthy v \<Longrightarrow> i \<noteq> [] \<and> job_obj st i \<noteq> None"
proof -
  have "store_ok st' \<and> jobs st' = jobs st \<and> (\<forall>i'. job_obj st' i' = job_obj st i')
      \<and> (truthy v \<longrightarrow> i \<noteq> [] \<and> job_obj st i \<noteq> None)"
  proof (cases "i = [] \<or> job_obj st i = None")
    case True
    with assms show ?thesis by (auto simp: getJob_def split: if_splits)
  next
    case False
    then obtain a ob where jo: "job_obj st i = Some (a, ob)" by auto
    with False assms(2) obtain c where al: "alloc ob st = (c, st')"
      by (auto simp: getJob_def split: prod.splits)
    from alloc_effect[OF assms(1) al] False show ?thesis by simp
  qed
  then show "store_ok st'" "jobs st' = jobs st" "\<And>i'. job_obj st' i' = job_obj st i'"
    "truthy v \<Longrightarrow> i \<noteq> [] \<and> job_obj st i \<noteq> None" by auto
qed

lemma copy_all_effect:
  "store_ok st \<Longrightarrow> copy_all as st = (cs, st') \<Longrightarrow>
   store_ok st' \<and> jobs st' = jobs st \<and> (\<forall>i. job_obj st' i = job_obj st i) \<and> length cs \<le> length as"
proof (induction as arbitrary: st cs st')
  case Nil
  then show ?case by simp
next
  case (Cons a as)
  show ?case
  proof (cases "heap st a")
    case None
    with Cons.prems have "copy_all as st = (cs, st')" by simp
    from Cons.IH[OF Cons.prems(1) this] show ?thesis by simp
  next
    case (Some ob)
    obtain c st1 where al: "alloc ob st = (c, st1)" by (cases "alloc ob st")
    obtain cs1 st2 where ca: "copy_all as st1 = (cs1, st2)" by (cases "copy_all as st1")
    from Cons.prems(2) Some al ca have eq: "cs = JRef c # cs1" "st' = st2" by auto
    note a1 = alloc_effect[OF Cons.prems(1) al]
    from Cons.IH[OF a1(1) ca] a1(2) a1(3) eq show ?thesis by simp
  qed
qed

lemma getJobsByStatus_effect:
  assumes "store_ok st" "getJobsByStatus status st = Inr (cs, st')"
  shows "store_ok st'" "jobs st' = jobs st" "\<And>i. job_obj st' i = job_obj st i"
proof -
  from assms(2) obtain as where "copy_all as st = (cs, st')"
    by (auto simp: getJobsByStatus_def split: if_splits)
  from copy_all_effect[OF assms(1) this]
  show "store_ok st'" "jobs st' = jobs st" "\<And>i. job_obj st' i = job_obj st i" by auto
qed

lemma update_snd_set: "snd ` set (AList.update k v al) \<subseteq> insert v (snd ` set al)"
  by (induction al) auto

lemma update_snd_distinct:
  "distinct (map snd al) \<Longrightarrow> v \<notin> snd ` set al \<Longrightarrow> distinct (map snd (AList.update k v al))"
proof (induction al)
  case Nil
  then show ?case by simp
next
  case (Cons p al)
  from Cons.prems have d: "distinct (map snd al)" and v: "v \<notin> snd ` set al"
    and pv: "snd p \<noteq> v" and pn: "snd p \<notin> snd ` set al" by auto
  show ?case
  proof (cases "fst p = k")
    case True
    with d v show ?thesis by simp
  next
    case False
    from update_snd_set[of k v al] pv pn have "snd p \<notin> snd ` set (AList.update k v al)" by blast
    with False Cons.IH[OF d v] show ?thesis by simp
  qed
qed

lemma createJob_effect:
  assumes ok: "store_ok st" and c: "createJob now i rd st = Inr (r, st')"
  shows "store_ok st'"
    "\<And>i'. i' \<noteq> i \<Longrightarrow> job_obj st' i' = job_obj st i'"
    "job_field st' i ''status'' = JStr ''pending''"
proof -
  from c obtain ob1 ob2 where st': "jobs st' = AList.update i (Suc (fresh st)) (jobs st)"
      "fresh st' = Suc (Suc (fresh st))"
      "heap st' = (heap st)(fresh st \<mapsto> ob1, Suc (fresh st) \<mapsto> ob2)"
      "ob2 ''status'' = Some (JStr ''pending'')"
    by (auto simp: createJob_def alloc_def Let_def split: if_splits)
  from ok have old: "\<forall>a \<in> snd ` set (jobs st). a < fresh st \<and> heap st a \<noteq> None"
    by (simp add: store_ok_def)
  then have notin: "Suc (fresh st) \<notin> snd ` set (jobs st)" by auto
  show "store_ok st'"
    unfolding store_ok_def
  proof (intro conjI ballI)
    show "distinct (map fst (jobs st'))" using ok st'(1) by (simp add: store_ok_def distinct_update)
    show "distinct (map snd (jobs st'))"
      using ok st'(1) notin by (simp add: store_ok_def update_snd_distinct)
    fix a assume "a \<in> snd ` set (jobs st')"
    with st'(1) have "a \<in> snd ` set (AList.update i (Suc (fresh st)) (jobs st))" by simp
    with update_snd_set[of i "Suc (fresh st)" "jobs st"]
    have "a = Suc (fresh st) \<or> a \<in> snd ` set (jobs st)" by blast
    then show "a < fresh st'"
    proof
      assume "a = Suc (fresh st)" with st'(2) show ?thesis by simp
    next
      assume "a \<in> snd ` set (jobs st)"
      with old have "a < fresh st" by blast
      with st'(2) show ?thesis by simp
    qed
    from \<open>a = Suc (fresh st) \<or> a \<in> snd ` set (jobs st)\<close> show "heap st' a \<noteq> None"
    proof
      assume "a = Suc (fresh st)" with st'(3) show ?thesis by simp
    next
      assume "a \<in> snd ` set (jobs st)"
      with old have "a < fresh st" "heap st a \<noteq> None" by blast+
      with st'(3) show ?thesis by simp
    qed
  qed
  show "job_field st' i ''status'' = JStr ''pending''"
    using st' by (simp add: job_field_def job_obj_def update_conv' get_prop_def)
  fix i' assume ne: "i' \<noteq> i"
  show "job_obj st' i' = job_obj st i'"
  proof (cases "map_of (jobs st) i'")
    case None
    with st' ne show ?thesis by (simp add: job_obj_def update_conv')
  next
    case (Some a)
    with ok have "a < fresh st" by (rule store_ok_addr)
    with st' ne Some show ?thesis by (simp add: job_obj_def update_conv')
  qed
qed

lemma map_of_filter_absent: "k \<notin> fst ` set xs \<Longrightarrow> map_of (filter P xs) k = None"
  by (induction xs) auto

lemma map_of_filter_kept_or_gone:
  assumes "distinct (map fst al)"
  shows "map_of (filter Q al) key = map_of al key \<or> map_of (filter Q al) key = None"
  using assms
proof (induction al)
  case Nil
  then show ?case by simp
next
  case (Cons e al)
  from Cons.prems have d: "distinct (map fst al)" and n: "fst e \<notin> fst ` set al" by auto
  show ?case
  proof (cases "key = fst e")
    case True
    with n have "map_of (filter Q al) key = None" by (simp add: map_of_filter_absent)
    with True show ?thesis by (cases e) simp
  next
    case False
    with Cons.IH[OF d] show ?thesis by (cases e) auto
  qed
qed

lemma cleanupExpiredJobs_effect:
  assumes ok: "store_ok st" and c: "cleanupExpiredJobs parseDate now h st = Inr (n, st')"
  shows "store_ok st'"
    "\<And>i. job_obj st' i = job_obj st i \<or> job_obj st' i = None"
proof -
  from c obtain P where st': "st' = st\<lparr>jobs := filter P (jobs st)\<rparr>"
    by (auto simp: cleanupExpiredJobs_def Let_def split: if_splits)
  from ok st' show "store_ok st'"
    unfolding store_ok_def by (auto simp: distinct_map_filter)
  fix i
  from ok have "distinct (map fst (jobs st))" by (simp add: store_ok_def)
  from map_of_filter_kept_or_gone[OF this, of P i]
  have "map_of (jobs st') i = map_of (jobs st) i \<or> map_of (jobs st') i = None"
    using st' by simp
  then show "job_obj st' i = job_obj st i \<or> job_obj st' i = None"
  proof
    assume "map_of (jobs st') i = map_of (jobs st) i"
    moreover have "heap st' = heap st" using st' by simp
    ultimately have "job_obj st' i = job_obj st i" by (simp add: job_obj_def split: option.splits)
    then show ?thesis ..
  next
    assume "map_of (jobs st') i = None"
    then have "job_obj st' i = None" by (simp add: job_obj_def)
    then show ?thesis ..
  qed
qed

lemma updateJobStatus_succeeds:
  "i \<noteq> [] \<Longrightarrow> valid_status s \<Longrightarrow> job_obj st i \<noteq> None \<Longrightarrow> \<exists>st'. updateJobStatus now i s p st = Inr st'"
  by (auto simp: updateJobStatus_def Let_def)

lemma updateJobProgress_succeeds:
  "i \<noteq> [] \<Longrightarrow> 0 \<le> pc \<Longrightarrow> pc \<le> 100 \<Longrightarrow> job_obj st i \<noteq> None \<Longrightarrow> \<exists>st'. updateJobProgress now i stp pc st = Inr st'"
  by (auto simp: updateJobProgress_def)

lemma setJobFailed_succeeds:
  "i \<noteq> [] \<Longrightarrow> truthy m \<Longrightarrow> job_obj st i \<noteq> None \<Longrightarrow> \<exists>st'. setJobFailed now i m stk st = Inr st'"
  by (auto simp: setJobFailed_def Let_def split: prod.splits)

lemma updateJobProgress_thrown: "updateJobProgress now i stp pc st = Inl e \<Longrightarrow> truthy (thrown e)"
  by (auto simp: updateJobProgress_def thrown_def split: if_splits option.splits)

lemma setJobCompleted_thrown: "setJobCompleted now i rd st = Inl e \<Longrightarrow> truthy (thrown e)"
  by (auto simp: setJobCompleted_def thrown_def Let_def split: if_splits option.splits prod.splits)

subsection \<open>The states the worker keeps to\<close>

text \<open>The \<^verbatim>\<open>catch\<close> block of a task, a task that changes its phase, a task that is
  started, and a change of the store alone.\<close>

lemma job_field_None: "job_obj st i = None \<Longrightarrow> job_field st i k = JUndefined"
  by (simp add: job_field_def)

lemma unfinished_update_same:
  "map_of ts i = Some p \<Longrightarrow> unfinished (i, p) = unfinished (i, p') \<Longrightarrow>
   length (filter unfinished (AList.update i p' ts)) = length (filter unfinished ts)"
  by (induction ts) (auto simp: unfinished_def split: if_splits)

lemma unfinished_update_new:
  "i \<notin> fst ` set ts \<Longrightarrow>
   length (filter unfinished (AList.update i p' ts)) =
     length (filter unfinished ts) + (if p' = Settled then 0 else 1)"
  by (induction ts) (auto simp: unfinished_def)

lemma unfinished_update_done:
  "map_of ts i = Some p \<Longrightarrow> p \<noteq> Settled \<Longrightarrow>
   length (filter unfinished (AList.update i Settled ts)) + 1 = length (filter unfinished ts)"
  by (induction ts) (auto simp: unfinished_def split: if_splits)

lemma unfinished_delete:
  "distinct (map fst ts) \<Longrightarrow> map_of ts i = Some Settled \<Longrightarrow>
   filter unfinished (AList.delete i ts) = filter unfinished ts"
proof (induction ts)
  case Nil
  then show ?case by simp
next
  case (Cons t ts)
  obtain k p where t: "t = (k, p)" by (cases t)
  show ?case
  proof (cases "k = i")
    case True
    with Cons.prems t have "p = Settled" "i \<notin> fst ` set ts" by auto
    then have "AList.delete i ts = ts" by (simp add: delete_id)
    with True t \<open>p = Settled\<close> show ?thesis by (simp add: unfinished_def)
  next
    case False
    with Cons t show ?thesis by simp
  qed
qed

lemma on_error_effect:
  assumes ok: "store_ok (store s)"
  shows "store_ok (store (on_error now i m stk s))"
    "tasks (on_error now i m stk s) = AList.update i Cleaning (tasks s)"
    "currentJobCount (on_error now i m stk s) = currentJobCount s"
    "maxConcurrentJobs (on_error now i m stk s) = maxConcurrentJobs s"
    "processingJobs (on_error now i m stk s) = processingJobs s"
    "ticks (on_error now i m stk s) = ticks s"
    "\<And>i'. i' \<noteq> i \<Longrightarrow> job_field (store (on_error now i m stk s)) i' ''status'' = job_field (store s) i' ''status''"
    "job_field (store (on_error now i m stk s)) i ''status'' = JStr ''processing''
       \<Longrightarrow> job_field (store s) i ''status'' = JStr ''processing''"
    "i \<noteq> [] \<Longrightarrow> truthy m \<Longrightarrow> job_field (store (on_error now i m stk s)) i ''status'' \<noteq> JStr ''processing''"
proof -
  let ?s' = "on_error now i m stk s"
  show "tasks ?s' = AList.update i Cleaning (tasks s)" "currentJobCount ?s' = currentJobCount s"
    "maxConcurrentJobs ?s' = maxConcurrentJobs s" "processingJobs ?s' = processingJobs s"
    "ticks ?s' = ticks s"
    by (simp_all add: on_error_def set_phase_def Let_def)
  have main: "store_ok (store ?s')
    \<and> (\<forall>i'. i' \<noteq> i \<longrightarrow> job_field (store ?s') i' ''status'' = job_field (store s) i' ''status'')
    \<and> (job_field (store ?s') i ''status'' = JStr ''processing'' \<longrightarrow> job_field (store s) i ''status'' = JStr ''processing'')
    \<and> (i \<noteq> [] \<longrightarrow> truthy m \<longrightarrow> job_field (store ?s') i ''status'' \<noteq> JStr ''processing'')"
  proof (cases "setJobFailed now i m stk (store s)")
    case (Inl e)
    then have st: "store ?s' = store s" by (simp add: on_error_def Let_def)
    have "job_obj (store s) i = None" if a: "i \<noteq> []" "truthy m"
    proof (rule ccontr)
      assume "job_obj (store s) i \<noteq> None"
      from setJobFailed_succeeds[OF a this, of now stk] Inl show False by simp
    qed
    then have "i \<noteq> [] \<Longrightarrow> truthy m \<Longrightarrow> job_field (store s) i ''status'' = JUndefined"
      by (simp add: job_field_None)
    with st ok show ?thesis by auto
  next
    case (Inr st1)
    then have st: "store ?s' = st1" by (simp add: on_error_def Let_def)
    note e = setJobFailed_effect[OF ok Inr]
    from e(3) have "\<forall>i'. i' \<noteq> i \<longrightarrow> job_field st1 i' ''status'' = job_field (store s) i' ''status''"
      by (simp add: job_field_def)
    with st e(1) e(4) show ?thesis by simp
  qed
  from main show "store_ok (store ?s')" by simp
  from main show "\<And>i'. i' \<noteq> i \<Longrightarrow> job_field (store ?s') i' ''status'' = job_field (store s) i' ''status''" by simp
  from main show "job_field (store ?s') i ''status'' = JStr ''processing''
       \<Longrightarrow> job_field (store s) i ''status'' = JStr ''processing''" by simp
  from main show "i \<noteq> [] \<Longrightarrow> truthy m \<Longrightarrow> job_field (store ?s') i ''status'' \<noteq> JStr ''processing''" by simp
qed

lemma phase_change:
  assumes ok: "sys_ok s" and t: "map_of (tasks s) i = Some p" and u: "p \<noteq> Settled" "p' \<noteq> Settled"
    and st: "store_ok (store s')"
    and ts: "tasks s' = AList.update i p' (tasks s)"
    and same: "currentJobCount s' = currentJobCount s" "maxConcurrentJobs s' = maxConcurrentJobs s"
      "processingJobs s' = processingJobs s"
    and other: "\<And>i'. i' \<noteq> i \<Longrightarrow> job_field (store s') i' ''status'' = JStr ''processing''
                   \<Longrightarrow> job_field (store s) i' ''status'' = JStr ''processing''"
    and self: "job_field (store s') i ''status'' = JStr ''processing'' \<Longrightarrow> active p'"
    and ne: "active p' \<Longrightarrow> i \<noteq> []"
  shows "sys_ok s'"
proof -
  from t have key: "i \<in> set (map fst (tasks s))" by (metis map_of_SomeD image_eqI fst_conv set_map)
  then have keys: "map fst (tasks s') = map fst (tasks s)" using ts by (simp add: update_keys)
  have len: "length (filter unfinished (tasks s')) = length (filter unfinished (tasks s))"
    using unfinished_update_same[OF t, of p'] u ts by (simp add: unfinished_def)
  have mo: "map_of (tasks s') = (map_of (tasks s))(i \<mapsto> p')" using ts by (simp add: update_conv')
  show ?thesis
    unfolding sys_ok_def
  proof (intro conjI allI impI)
    show "store_ok (store s')" by fact
    show "distinct (map fst (tasks s'))" using ok keys by (simp add: sys_ok_def)
    show "set (map fst (tasks s')) \<subseteq> set (processingJobs s')" using ok keys same by (simp add: sys_ok_def)
    show "currentJobCount s' = int (length (filter unfinished (tasks s')))"
      using ok len same by (simp add: sys_ok_def)
    show "currentJobCount s' \<le> maxConcurrentJobs s'" using ok same by (simp add: sys_ok_def)
  next
    fix j assume pj: "job_field (store s') j ''status'' = JStr ''processing''"
    show "\<exists>q. map_of (tasks s') j = Some q \<and> active q"
    proof (cases "j = i")
      case True
      with pj self mo show ?thesis by simp
    next
      case False
      with other pj have "job_field (store s) j ''status'' = JStr ''processing''" by simp
      with ok obtain q where "map_of (tasks s) j = Some q" "active q" unfolding sys_ok_def by blast
      with False mo show ?thesis by simp
    qed
  next
    fix j q assume jq: "map_of (tasks s') j = Some q" "active q"
    show "j \<noteq> []"
    proof (cases "j = i")
      case True
      with jq mo ne show ?thesis by simp
    next
      case False
      with jq mo have "map_of (tasks s) j = Some q" by simp
      with ok jq(2) show ?thesis unfolding sys_ok_def by blast
    qed
  qed
qed

lemma new_task:
  assumes ok: "sys_ok s" and pj: "i \<in> set (processingJobs s)" and fresh: "i \<notin> fst ` set (tasks s)"
    and room: "currentJobCount s < maxConcurrentJobs s" and u: "p' \<noteq> Settled"
    and st: "store_ok (store s')"
    and ts: "tasks s' = AList.update i p' (tasks s)"
    and same: "currentJobCount s' = currentJobCount s + 1" "maxConcurrentJobs s' = maxConcurrentJobs s"
      "processingJobs s' = processingJobs s"
    and other: "\<And>i'. i' \<noteq> i \<Longrightarrow> job_field (store s') i' ''status'' = JStr ''processing''
                   \<Longrightarrow> job_field (store s) i' ''status'' = JStr ''processing''"
    and self: "job_field (store s') i ''status'' = JStr ''processing'' \<Longrightarrow> active p'"
    and ne: "active p' \<Longrightarrow> i \<noteq> []"
  shows "sys_ok s'"
proof -
  from fresh have keys: "map fst (tasks s') = map fst (tasks s) @ [i]" using ts by (simp add: update_keys)
  have len: "length (filter unfinished (tasks s')) = length (filter unfinished (tasks s)) + 1"
    using unfinished_update_new[OF fresh, of p'] u ts by simp
  have mo: "map_of (tasks s') = (map_of (tasks s))(i \<mapsto> p')" using ts by (simp add: update_conv')
  show ?thesis
    unfolding sys_ok_def
  proof (intro conjI allI impI)
    show "store_ok (store s')" by fact
    show "distinct (map fst (tasks s'))" using ok keys fresh by (simp add: sys_ok_def)
    show "set (map fst (tasks s')) \<subseteq> set (processingJobs s')" using ok keys same pj by (simp add: sys_ok_def)
    show "currentJobCount s' = int (length (filter unfinished (tasks s')))"
      using ok len same by (simp add: sys_ok_def)
    show "currentJobCount s' \<le> maxConcurrentJobs s'" using room same by simp
  next
    fix j assume pj: "job_field (store s') j ''status'' = JStr ''processing''"
    show "\<exists>q. map_of (tasks s') j = Some q \<and> active q"
    proof (cases "j = i")
      case True
      with pj self mo show ?thesis by simp
    next
      case False
      with other pj have "job_field (store s) j ''status'' = JStr ''processing''" by simp
      with ok obtain q where "map_of (tasks s) j = Some q" "active q" unfolding sys_ok_def by blast
      with False mo show ?thesis by simp
    qed
  next
    fix j q assume jq: "map_of (tasks s') j = Some q" "active q"
    show "j \<noteq> []"
    proof (cases "j = i")
      case True
      with jq mo ne show ?thesis by simp
    next
      case False
      with jq mo have "map_of (tasks s) j = Some q" by simp
      with ok jq(2) show ?thesis unfolding sys_ok_def by blast
    qed
  qed
qed

lemma store_change:
  assumes ok: "sys_ok s" and st: "store_ok st'"
    and other: "\<And>i. job_field st' i ''status'' = JStr ''processing''
                   \<Longrightarrow> job_field (store s) i ''status'' = JStr ''processing''"
  shows "sys_ok (s\<lparr>store := st'\<rparr>)"
proof -
  have "\<exists>p. map_of (tasks s) i = Some p \<and> active p"
    if "job_field st' i ''status'' = JStr ''processing''" for i
    using other[OF that] ok unfolding sys_ok_def by blast
  with ok st show ?thesis unfolding sys_ok_def by (simp del: map_of_eq_Some_iff)
qed

lemma sys_ok_ticks: "sys_ok (s\<lparr>ticks := t\<rparr>) = sys_ok s"
  by (simp add: sys_ok_def)

lemma task_absent: "i \<notin> fst ` set ts \<Longrightarrow> map_of ts i = None"
  by (simp add: map_of_eq_None_iff)

lemma processJob_ok:
  assumes ok: "sys_ok s" and pj: "i \<in> set (processingJobs s)" and fresh: "i \<notin> fst ` set (tasks s)"
    and room: "currentJobCount s < maxConcurrentJobs s"
  shows "sys_ok (processJob now i s)"
    "currentJobCount (processJob now i s) = currentJobCount s + 1"
    "maxConcurrentJobs (processJob now i s) = maxConcurrentJobs s"
    "ticks (processJob now i s) = ticks s"
    "processingJobs (processJob now i s) = processingJobs s"
proof -
  let ?s' = "processJob now i s"
  obtain job st1 where gj: "getJob i (store s) = (job, st1)" by (cases "getJob i (store s)")
  from ok have sok: "store_ok (store s)" by (simp add: sys_ok_def)
  note g = getJob_effect[OF sok gj]
  let ?s2 = "s\<lparr>currentJobCount := currentJobCount s + 1, store := st1\<rparr>"
  have notproc: "job_field (store s) i ''status'' \<noteq> JStr ''processing''"
  proof
    assume "job_field (store s) i ''status'' = JStr ''processing''"
    with ok obtain p where "map_of (tasks s) i = Some p" unfolding sys_ok_def by blast
    with fresh show False by (simp add: task_absent)
  qed
  have st1_same: "\<And>i'. job_field st1 i' ''status'' = job_field (store s) i' ''status''"
    using g(3) by (simp add: job_field_def)
  have all: "sys_ok ?s' \<and> currentJobCount ?s' = currentJobCount s + 1
      \<and> maxConcurrentJobs ?s' = maxConcurrentJobs s \<and> ticks ?s' = ticks s
      \<and> processingJobs ?s' = processingJobs s"
  proof (cases "truthy job")
    case False
    let ?m = "JStr (''Job '' @ i @ '' not found'')"
    let ?k = "JStr (''Error: Job '' @ i @ '' not found'')"
    from False gj have eq: "?s' = on_error now i ?m ?k ?s2"
      by (simp add: processJob_def Let_def)
    have ok2: "store_ok (store ?s2)" using g(1) by simp
    note e = on_error_effect[where s="?s2" and now=now and i=i and m="?m" and stk="?k", OF ok2]
    have "sys_ok (on_error now i ?m ?k ?s2)"
    proof (rule new_task[OF ok pj fresh room, of Cleaning])
      show "Cleaning \<noteq> Settled" by simp
      show "store_ok (store (on_error now i ?m ?k ?s2))" by (rule e(1))
      show "tasks (on_error now i ?m ?k ?s2) = AList.update i Cleaning (tasks s)" using e(2) by simp
      show "currentJobCount (on_error now i ?m ?k ?s2) = currentJobCount s + 1" using e(3) by simp
      show "maxConcurrentJobs (on_error now i ?m ?k ?s2) = maxConcurrentJobs s" using e(4) by simp
      show "processingJobs (on_error now i ?m ?k ?s2) = processingJobs s" using e(5) by simp
      show "job_field (store s) i' ''status'' = JStr ''processing''"
        if "i' \<noteq> i" "job_field (store (on_error now i ?m ?k ?s2)) i' ''status'' = JStr ''processing''" for i'
        using that e(7)[of i'] st1_same by simp
      show "active Cleaning"
        if "job_field (store (on_error now i ?m ?k ?s2)) i ''status'' = JStr ''processing''"
        using e(8)[OF that] st1_same notproc by simp
      show "i \<noteq> []" if "active Cleaning" using that by (simp add: active_def)
    qed
    with eq e(3,4,5,6) show ?thesis by simp
  next
    case True
    with g(4) have ine: "i \<noteq> []" and ex: "job_obj (store s) i \<noteq> None" by auto
    from ex g(3) have ex1: "job_obj st1 i \<noteq> None" by simp
    from updateJobStatus_succeeds[OF ine _ ex1, of "''processing''" now Map.empty]
    obtain st2 where us: "updateJobStatus now i ''processing'' Map.empty st1 = Inr st2"
      by (auto simp: valid_status_def)
    note u = updateJobStatus_effect[OF g(1) us]
    have ex2: "job_obj st2 i \<noteq> None"
    proof
      assume "job_obj st2 i = None"
      then have "job_field st2 i ''status'' = JUndefined" by (simp add: job_field_None)
      with u(4) show False by simp
    qed
    from updateJobProgress_succeeds[OF ine _ _ ex2, of 20 now "JStr ''generating_screenshot''"]
    obtain st3 where up: "updateJobProgress now i (JStr ''generating_screenshot'') 20 st2 = Inr st3"
      by auto
    note v = updateJobProgress_effect[OF u(1) up]
    from True gj us up have eq: "?s' = ?s2\<lparr>store := st3, tasks := AList.update i Rendering (tasks s)\<rparr>"
      by (simp add: processJob_def Let_def set_phase_def)
    have "sys_ok (?s2\<lparr>store := st3, tasks := AList.update i Rendering (tasks s)\<rparr>)"
    proof (rule new_task[OF ok pj fresh room, of Rendering])
      show "job_field (store s) i' ''status'' = JStr ''processing''"
        if "i' \<noteq> i" "job_field (store (?s2\<lparr>store := st3, tasks := AList.update i Rendering (tasks s)\<rparr>)) i' ''status'' = JStr ''processing''" for i'
        using that v(3)[of i'] u(3)[of i'] st1_same[of i'] by (simp add: job_field_def)
      show "i \<noteq> []" if "active Rendering" by (rule ine)
    qed (simp_all add: v(1) active_def)
    with eq show ?thesis by simp
  qed
  from all show "sys_ok ?s'" "currentJobCount ?s' = currentJobCount s + 1"
    "maxConcurrentJobs ?s' = maxConcurrentJobs s" "ticks ?s' = ticks s"
    "processingJobs ?s' = processingJobs s" by simp_all
qed

lemma admit_ok:
  assumes ok: "sys_ok s" and room: "currentJobCount s < maxConcurrentJobs s"
    and a: "admit now job (l, s) = (l', s')"
  shows "sys_ok s'" "maxConcurrentJobs s' = maxConcurrentJobs s"
    "currentJobCount s' \<le> currentJobCount s + 1" "ticks s' = ticks s"
proof -
  let ?i = "str_of (prop_of (store s) job ''jobId'')"
  have "sys_ok s' \<and> maxConcurrentJobs s' = maxConcurrentJobs s
     \<and> currentJobCount s' \<le> currentJobCount s + 1 \<and> ticks s' = ticks s"
  proof (cases "?i \<in> set (processingJobs s)")
    case True
    with a ok show ?thesis by (simp add: admit_def Let_def)
  next
    case False
    let ?s1 = "s\<lparr>processingJobs := processingJobs s @ [?i]\<rparr>"
    from False a have s': "s' = processJob now ?i ?s1" by (simp add: admit_def Let_def)
    from ok have ok1: "sys_ok ?s1" unfolding sys_ok_def by auto
    from ok False have fresh: "?i \<notin> fst ` set (tasks ?s1)" unfolding sys_ok_def by auto
    have pj: "?i \<in> set (processingJobs ?s1)" by simp
    from room have room1: "currentJobCount ?s1 < maxConcurrentJobs ?s1" by simp
    from processJob_ok[OF ok1 pj fresh room1, of now] s' show ?thesis by simp
  qed
  then show "sys_ok s'" "maxConcurrentJobs s' = maxConcurrentJobs s"
    "currentJobCount s' \<le> currentJobCount s + 1" "ticks s' = ticks s" by simp_all
qed

lemma fold_admit_ok:
  "sys_ok s \<Longrightarrow> currentJobCount s + int (length js) \<le> maxConcurrentJobs s \<Longrightarrow>
   fold (admit now) js (l, s) = (l', s') \<Longrightarrow>
   sys_ok s' \<and> maxConcurrentJobs s' = maxConcurrentJobs s \<and> ticks s' = ticks s"
proof (induction js arbitrary: l s)
  case Nil
  then show ?case by simp
next
  case (Cons j js)
  obtain l1 s1 where a: "admit now j (l, s) = (l1, s1)" by (cases "admit now j (l, s)")
  from Cons.prems(2) have room: "currentJobCount s < maxConcurrentJobs s" by simp
  note r = admit_ok[OF Cons.prems(1) room a]
  from r(2,3) Cons.prems(2) have b: "currentJobCount s1 + int (length js) \<le> maxConcurrentJobs s1" by simp
  from Cons.prems(3) a have f: "fold (admit now) js (l1, s1) = (l', s')" by simp
  from Cons.IH[OF r(1) b f] r(2) r(4) show ?case by simp
qed

lemma processQueue_ok:
  assumes ok: "sys_ok s"
  shows "sys_ok (processQueue now s) \<and> maxConcurrentJobs (processQueue now s) = maxConcurrentJobs s"
proof (cases "currentJobCount s \<ge> maxConcurrentJobs s")
  case True
  with ok show ?thesis by (simp add: processQueue_def)
next
  case False
  from ok have sok: "store_ok (store s)" by (simp add: sys_ok_def)
  obtain pend st1 where g: "getJobsByStatus ''pending'' (store s) = Inr (pend, st1)"
    by (cases "getJobsByStatus ''pending'' (store s)")
       (auto simp: getJobsByStatus_def valid_status_def)
  note e = getJobsByStatus_effect[OF sok g]
  have ok1: "sys_ok (s\<lparr>store := st1\<rparr>)"
    by (rule store_change[OF ok e(1)]) (simp add: job_field_def e(3))
  show ?thesis
  proof (cases "pend = []")
    case True
    with False g ok1 show ?thesis by (simp add: processQueue_def)
  next
    case ne: False
    let ?js = "take (nat (maxConcurrentJobs s - currentJobCount s)) pend"
    obtain l' s' where f: "fold (admit now) ?js ([], s\<lparr>store := st1\<rparr>) = (l', s')"
      by (cases "fold (admit now) ?js ([], s\<lparr>store := st1\<rparr>)")
    from False have "currentJobCount (s\<lparr>store := st1\<rparr>) + int (length ?js)
        \<le> maxConcurrentJobs (s\<lparr>store := st1\<rparr>)" by simp
    from fold_admit_ok[OF ok1 this f] have r: "sys_ok s'" "maxConcurrentJobs s' = maxConcurrentJobs s"
      by simp_all
    from r(1) have "sys_ok (s'\<lparr>ticks := ticks s' @ [l']\<rparr>)" by (simp add: sys_ok_ticks)
    with False g ne f r show ?thesis by (simp add: processQueue_def Let_def)
  qed
qed

lemma active_unfinished: "active p \<Longrightarrow> p \<noteq> Settled"
  by (auto simp: active_def)

lemma on_error_running:
  assumes ok: "sys_ok s" and t: "map_of (tasks s) i = Some p" and a: "active p" and m: "truthy m"
    and st: "store_ok st1"
    and same: "\<And>i'. job_field st1 i' ''status'' = JStr ''processing''
                 \<Longrightarrow> job_field (store s) i' ''status'' = JStr ''processing''"
  shows "sys_ok (on_error now i m stk (s\<lparr>store := st1\<rparr>))"
proof -
  let ?s1 = "s\<lparr>store := st1\<rparr>"
  from st have ok1: "store_ok (store ?s1)" by simp
  note e = on_error_effect[where s="?s1" and now=now and i=i and m=m and stk=stk, OF ok1]
  from ok t a have ine: "i \<noteq> []" unfolding sys_ok_def by blast
  show ?thesis
  proof (rule phase_change[OF ok t active_unfinished[OF a], of Cleaning])
    show "job_field (store s) i' ''status'' = JStr ''processing''"
      if "i' \<noteq> i" "job_field (store (on_error now i m stk ?s1)) i' ''status'' = JStr ''processing''" for i'
      using that e(7)[of i'] same[of i'] by simp
    show "active Cleaning"
      if "job_field (store (on_error now i m stk ?s1)) i ''status'' = JStr ''processing''"
      using that e(9)[OF ine m] by simp
    show "i \<noteq> []" if "active Cleaning" by (rule ine)
  qed (simp_all add: e)
qed

lemma on_error_keeps:
  "maxConcurrentJobs (on_error now i m stk s) = maxConcurrentJobs s"
  by (simp add: on_error_def Let_def)

lemma progress_step:
  assumes ok: "sys_ok s" and t: "map_of (tasks s) i = Some p" and a: "active p" and a': "active p'"
  shows "sys_ok (case updateJobProgress now i stp pc (store s) of
             Inl e \<Rightarrow> on_error now i (thrown e) (stack_of e) s
           | Inr st1 \<Rightarrow> s\<lparr>store := st1, tasks := set_phase i p' (tasks s)\<rparr>)"
proof (cases "updateJobProgress now i stp pc (store s)")
  case (Inl e)
  from ok have sok: "store_ok (store s)" by (simp add: sys_ok_def)
  from on_error_running[OF ok t a updateJobProgress_thrown[OF Inl] sok, of now "stack_of e"] Inl
  show ?thesis by simp
next
  case (Inr st1)
  from ok have sok: "store_ok (store s)" by (simp add: sys_ok_def)
  note v = updateJobProgress_effect[OF sok Inr]
  from ok t a have ine: "i \<noteq> []" unfolding sys_ok_def by blast
  have "sys_ok (s\<lparr>store := st1, tasks := set_phase i p' (tasks s)\<rparr>)"
  proof (rule phase_change[OF ok t active_unfinished[OF a] active_unfinished[OF a']])
    show "job_field (store s) i' ''status'' = JStr ''processing''"
      if "i' \<noteq> i" "job_field (store (s\<lparr>store := st1, tasks := set_phase i p' (tasks s)\<rparr>)) i' ''status'' = JStr ''processing''" for i'
      using that v(3)[of i'] by (simp add: job_field_def)
    show "i \<noteq> []" if "active p'" by (rule ine)
  qed (simp_all add: v(1) a' set_phase_def)
  with Inr show ?thesis by simp
qed

lemma stage_ok_ok:
  assumes ok: "sys_ok s"
  shows "sys_ok (stage_ok now i art s)"
proof (cases "map_of (tasks s) i")
  case None
  with ok show ?thesis by (simp add: stage_ok_def)
next
  case (Some p)
  show ?thesis
  proof (cases p)
    case Rendering
    with Some progress_step[OF ok Some, of Composing now "JStr ''composing_video''" 60]
    show ?thesis by (simp add: stage_ok_def active_def)
  next
    case Composing
    with Some progress_step[OF ok Some, of Saving now "JStr ''saving_file''" 80]
    show ?thesis by (simp add: stage_ok_def active_def)
  next
    case Saving
    from ok have sok: "store_ok (store s)" by (simp add: sys_ok_def)
    obtain r st1 where al: "alloc (result_data art) (store s) = (r, st1)"
      by (cases "alloc (result_data art) (store s)")
    note a1 = alloc_effect[OF sok al]
    have same1: "\<And>i'. job_field st1 i' ''status'' = job_field (store s) i' ''status''"
      using a1(3) by (simp add: job_field_def)
    have act: "active p" using Saving by (simp add: active_def)
    from ok Some act have ine: "i \<noteq> []" unfolding sys_ok_def by blast
    show ?thesis
    proof (cases "setJobCompleted now i (JRef r) st1")
      case (Inl e)
      from on_error_running[OF ok Some act setJobCompleted_thrown[OF Inl] a1(1), of now "stack_of e"]
        same1 Inl Some Saving al
      show ?thesis by (simp add: stage_ok_def)
    next
      case (Inr st2)
      note c = setJobCompleted_effect[OF a1(1) Inr]
      have "sys_ok (s\<lparr>store := st2, tasks := set_phase i Cleaning (tasks s)\<rparr>)"
      proof (rule phase_change[OF ok Some active_unfinished[OF act], of Cleaning])
        show "job_field (store s) i' ''status'' = JStr ''processing''"
          if "i' \<noteq> i" "job_field (store (s\<lparr>store := st2, tasks := set_phase i Cleaning (tasks s)\<rparr>)) i' ''status'' = JStr ''processing''" for i'
          using that c(3)[of i'] same1[of i'] by (simp add: job_field_def)
        show "active Cleaning"
          if "job_field (store (s\<lparr>store := st2, tasks := set_phase i Cleaning (tasks s)\<rparr>)) i ''status'' = JStr ''processing''"
          using that c(4) by simp
        show "i \<noteq> []" if "active Cleaning" by (rule ine)
      qed (simp_all add: c(1) set_phase_def)
      with Inr Some Saving al show ?thesis by (simp add: stage_ok_def)
    qed
  next
    case Cleaning
    with Some ok show ?thesis by (simp add: stage_ok_def)
  next
    case Settled
    with Some ok show ?thesis by (simp add: stage_ok_def)
  qed
qed

lemma stage_err_ok:
  assumes ok: "sys_ok s" and m: "truthy m"
  shows "sys_ok (stage_err now i m stk s)"
proof (cases "map_of (tasks s) i")
  case None
  with ok show ?thesis by (simp add: stage_err_def)
next
  case (Some p)
  from ok have sok: "store_ok (store s)" by (simp add: sys_ok_def)
  show ?thesis
  proof (cases "active p")
    case True
    from on_error_running[OF ok Some True m sok, of now stk]
    have "sys_ok (on_error now i m stk s)" by simp
    with Some True show ?thesis by (auto simp: stage_err_def active_def)
  next
    case False
    with Some ok show ?thesis by (cases p) (simp_all add: stage_err_def active_def)
  qed
qed

lemma release_ok:
  assumes ok: "sys_ok s"
  shows "sys_ok (release i s)"
proof (cases "map_of (tasks s) i = Some Cleaning")
  case False
  with ok show ?thesis by (auto simp: release_def split: option.splits phase.splits)
next
  case True
  let ?s' = "s\<lparr>currentJobCount := currentJobCount s - 1, tasks := set_phase i Settled (tasks s)\<rparr>"
  from True have key: "i \<in> set (map fst (tasks s))" by (metis map_of_SomeD image_eqI fst_conv set_map)
  then have keys: "map fst (tasks ?s') = map fst (tasks s)" by (simp add: update_keys set_phase_def)
  have len: "length (filter unfinished (tasks ?s')) + 1 = length (filter unfinished (tasks s))"
    using unfinished_update_done[OF True] by (simp add: set_phase_def)
  have mo: "map_of (tasks ?s') = (map_of (tasks s))(i \<mapsto> Settled)" by (simp add: update_conv' set_phase_def)
  have "sys_ok ?s'"
    unfolding sys_ok_def
  proof (intro conjI allI impI)
    show "store_ok (store ?s')" using ok by (simp add: sys_ok_def)
    show "distinct (map fst (tasks ?s'))" using ok keys by (simp add: sys_ok_def)
    show "set (map fst (tasks ?s')) \<subseteq> set (processingJobs ?s')" using ok keys by (simp add: sys_ok_def)
    show "currentJobCount ?s' = int (length (filter unfinished (tasks ?s')))"
      using ok len by (simp add: sys_ok_def)
    show "currentJobCount ?s' \<le> maxConcurrentJobs ?s'" using ok by (simp add: sys_ok_def)
  next
    fix j assume "job_field (store ?s') j ''status'' = JStr ''processing''"
    with ok obtain q where q: "map_of (tasks s) j = Some q" "active q" unfolding sys_ok_def by auto
    with True have "j \<noteq> i" by (auto simp: active_def)
    with q mo show "\<exists>q. map_of (tasks ?s') j = Some q \<and> active q" by simp
  next
    fix j q assume jq: "map_of (tasks ?s') j = Some q" "active q"
    with mo have "j \<noteq> i" by (auto simp: active_def)
    with jq mo have "map_of (tasks s) j = Some q" by simp
    with ok jq(2) show "j \<noteq> []" unfolding sys_ok_def by blast
  qed
  with True show ?thesis by (simp add: release_def)
qed

lemma settle_ok:
  assumes ok: "sys_ok s"
  shows "sys_ok (settle i s)"
proof (cases "map_of (tasks s) i = Some Settled")
  case False
  with ok show ?thesis by (auto simp: settle_def split: option.splits phase.splits)
next
  case True
  let ?s' = "s\<lparr>processingJobs := removeAll i (processingJobs s),
            tasks := AList.delete i (tasks s),
            ticks := filter (\<lambda>ws. ws \<noteq> []) (map (removeAll i) (ticks s))\<rparr>"
  from ok have d: "distinct (map fst (tasks s))" by (simp add: sys_ok_def)
  have mo: "map_of (tasks ?s') = (map_of (tasks s))(i := None)" by (simp add: delete_conv')
  have "sys_ok ?s'"
    unfolding sys_ok_def
  proof (intro conjI allI impI)
    show "store_ok (store ?s')" using ok by (simp add: sys_ok_def)
    show "distinct (map fst (tasks ?s'))" using d by (simp add: distinct_delete)
    show "set (map fst (tasks ?s')) \<subseteq> set (processingJobs ?s')"
      using ok by (auto simp: sys_ok_def delete_keys)
    show "currentJobCount ?s' = int (length (filter unfinished (tasks ?s')))"
      using ok unfinished_delete[OF d True] by (simp add: sys_ok_def)
    show "currentJobCount ?s' \<le> maxConcurrentJobs ?s'" using ok by (simp add: sys_ok_def)
  next
    fix j assume "job_field (store ?s') j ''status'' = JStr ''processing''"
    with ok obtain q where q: "map_of (tasks s) j = Some q" "active q" unfolding sys_ok_def by auto
    with True have "j \<noteq> i" by (auto simp: active_def)
    with q mo show "\<exists>q. map_of (tasks ?s') j = Some q \<and> active q" by simp
  next
    fix j q assume jq: "map_of (tasks ?s') j = Some q" "active q"
    with mo have "map_of (tasks s) j = Some q" by (auto split: if_splits)
    with ok jq(2) show "j \<noteq> []" unfolding sys_ok_def by blast
  qed
  with True show ?thesis by (simp add: settle_def)
qed

lemma create_ok:
  assumes ok: "sys_ok s"
  shows "sys_ok (step parseDate (Create now i rd) s)"
proof (cases "createJob now i rd (store s)")
  case (Inl e)
  with ok show ?thesis by simp
next
  case (Inr r)
  obtain k st' where r: "r = (k, st')" by (cases r)
  from ok have sok: "store_ok (store s)" by (simp add: sys_ok_def)
  note c = createJob_effect[OF sok Inr[unfolded r]]
  have "sys_ok (s\<lparr>store := st'\<rparr>)"
  proof (rule store_change[OF ok c(1)])
    fix j assume p: "job_field st' j ''status'' = JStr ''processing''"
    with c(3) have "j \<noteq> i" by auto
    with c(2)[of j] p show "job_field (store s) j ''status'' = JStr ''processing''"
      by (simp add: job_field_def)
  qed
  with Inr r show ?thesis by simp
qed

lemma prune_ok:
  assumes ok: "sys_ok s"
  shows "sys_ok (step parseDate (Prune now h) s)"
proof (cases "cleanupExpiredJobs parseDate now h (store s)")
  case (Inl e)
  with ok show ?thesis by simp
next
  case (Inr r)
  obtain n st' where r: "r = (n, st')" by (cases r)
  from ok have sok: "store_ok (store s)" by (simp add: sys_ok_def)
  note c = cleanupExpiredJobs_effect[OF sok Inr[unfolded r]]
  have "sys_ok (s\<lparr>store := st'\<rparr>)"
  proof (rule store_change[OF ok c(1)])
    fix j assume p: "job_field st' j ''status'' = JStr ''processing''"
    with c(2)[of j] show "job_field (store s) j ''status'' = JStr ''processing''"
      by (auto simp: job_field_def)
  qed
  with Inr r show ?thesis by simp
qed

lemma max_kept:
  "(\<And>t. e \<noteq> Tick t) \<Longrightarrow> maxConcurrentJobs (step parseDate e s) = maxConcurrentJobs s"
  by (cases e)
     (auto simp: stage_ok_def stage_err_def release_def settle_def on_error_keeps Let_def
           split: sum.splits option.splits phase.splits prod.splits)

lemma step_ok:
  assumes ok: "sys_ok s" and e: "event_ok e"
  shows "sys_ok (step parseDate e s) \<and> maxConcurrentJobs (step parseDate e s) = maxConcurrentJobs s"
proof (cases e)
  case (Create now i rd)
  with create_ok[OF ok] max_kept[where e=e and s=s and parseDate=parseDate] show ?thesis by simp
next
  case (Tick now)
  with processQueue_ok[OF ok] show ?thesis by simp
next
  case (StageOk now i art)
  with stage_ok_ok[OF ok] max_kept[where e=e and s=s and parseDate=parseDate] show ?thesis by simp
next
  case (StageErr now i m stk)
  with e stage_err_ok[OF ok] max_kept[where e=e and s=s and parseDate=parseDate] show ?thesis by simp
next
  case (Released i)
  with release_ok[OF ok] max_kept[where e=e and s=s and parseDate=parseDate] show ?thesis by simp
next
  case (Settle i)
  with settle_ok[OF ok] max_kept[where e=e and s=s and parseDate=parseDate] show ?thesis by simp
next
  case (Prune now h)
  with prune_ok[OF ok] max_kept[where e=e and s=s and parseDate=parseDate] show ?thesis by simp
qed

lemma run_ok:
  "sys_ok s \<Longrightarrow> list_all event_ok evs \<Longrightarrow>
   sys_ok (run parseDate evs s) \<and> maxConcurrentJobs (run parseDate evs s) = maxConcurrentJobs s"
  unfolding run_def
proof (induction evs arbitrary: s)
  case Nil
  then show ?case by simp
next
  case (Cons e evs)
  from Cons.prems have e: "event_ok e" and r: "list_all event_ok evs" by simp_all
  note st = step_ok[OF Cons.prems(1) e]
  from Cons.IH[of "step parseDate e s"] st r show ?case by simp
qed

lemma has_status_job_field:
  assumes ok: "store_ok st" and m: "(i, a) \<in> set (jobs st)"
  shows "has_status st x a = (job_field st i ''status'' = JStr x)"
proof -
  from ok m have mo: "map_of (jobs st) i = Some a" by (simp add: store_ok_def)
  from store_ok_addr(2)[OF ok mo] obtain ob where "heap st a = Some ob" by auto
  with mo show ?thesis by (simp add: has_status_def job_field_def job_obj_def)
qed

lemma fewer_active_than_unfinished:
  "length (filter (\<lambda>t. active (snd t)) ts) \<le> length (filter unfinished ts)"
  by (induction ts) (auto simp: unfinished_def active_def)

lemma processing_count_le:
  assumes ok: "sys_ok s"
  shows "int (processing_count s) \<le> currentJobCount s"
proof -
  let ?st = "store s"
  let ?J = "filter (\<lambda>e. has_status ?st ''processing'' (snd e)) (jobs ?st)"
  let ?A = "filter (\<lambda>t. active (snd t)) (tasks s)"
  from ok have sok: "store_ok ?st" and dt: "distinct (map fst (tasks s))" by (simp_all add: sys_ok_def)
  have pc: "processing_count s = length ?J"
    by (simp add: processing_count_def filter_map comp_def)
  from sok have dJ: "distinct (map fst ?J)" by (simp add: store_ok_def distinct_map_filter)
  have sub: "set (map fst ?J) \<subseteq> set (map fst ?A)"
  proof
    fix i assume "i \<in> set (map fst ?J)"
    then obtain a where m: "(i, a) \<in> set (jobs ?st)" and h: "has_status ?st ''processing'' a" by auto
    from has_status_job_field[OF sok m] h have "job_field ?st i ''status'' = JStr ''processing''" by simp
    with ok obtain p where "map_of (tasks s) i = Some p" "active p" unfolding sys_ok_def by blast
    then have "(i, p) \<in> set ?A" by (auto dest: map_of_SomeD)
    then show "i \<in> set (map fst ?A)" by force
  qed
  have 1: "card (set (map fst ?J)) = length ?J" using distinct_card[OF dJ] by simp
  have 2: "card (set (map fst ?J)) \<le> card (set (map fst ?A))"
    by (rule card_mono[OF finite_set sub])
  have 3: "card (set (map fst ?A)) \<le> length ?A" using card_length[of "map fst ?A"] by simp
  have 4: "length ?A \<le> length (filter unfinished (tasks s))"
    by (rule fewer_active_than_unfinished)
  from 1 2 3 4 have "length ?J \<le> length (filter unfinished (tasks s))" by linarith
  with ok pc show ?thesis by (simp add: sys_ok_def)
qed

lemma new_worker_ok:
  assumes "store_ok st" "\<And>i. job_field st i ''status'' \<noteq> JStr ''processing''" "1 \<le> N"
  shows "sys_ok (new_worker st (Some N))" "maxConcurrentJobs (new_worker st (Some N)) = N"
proof -
  show "maxConcurrentJobs (new_worker st (Some N)) = N" using assms(3) by (simp add: new_worker_def)
  show "sys_ok (new_worker st (Some N))"
    unfolding sys_ok_def
  proof (intro conjI allI impI)
    fix i assume "job_field (store (new_worker st (Some N))) i ''status'' = JStr ''processing''"
    with assms(2)[of i] show "\<exists>p. map_of (tasks (new_worker st (Some N))) i = Some p \<and> active p"
      by (simp add: new_worker_def)
  qed (use assms in \<open>simp_all add: new_worker_def\<close>)
qed


text \<open>
  Claim C2, as stated: a worker configured with \<open>maxConcurrentJobs = N\<close> never has
  more than \<open>N\<close> jobs in status \<open>processing\<close>. The constructor reads
  \<^verbatim>\<open>dependencies.maxConcurrentJobs || 2\<close>: configured with 0 the worker has the limit 2,
  and with three pending jobs its first tick puts two of them in status \<open>processing\<close>.
\<close>

theorem zero_limit_counterexample:
  "maxConcurrentJobs (new_worker demo_heap (Some 0)) = 2
   \<and> processing_count (run timestamps_only first_tick (new_worker demo_heap (Some 0))) = 2"
  by code_simp

text \<open>
  Claim C2, amended. For a worker configured with \<open>maxConcurrentJobs = N\<close>, \<open>N\<close> at
  least 1, on a well-formed job store with no job in status \<open>processing\<close>, after every
  sequence of events of the event loop (job creations, poll ticks, stages of tasks that
  resolve or reject with an error that has a message, ends of tasks, pruning of the
  store) at most \<open>N\<close> jobs are in status \<open>processing\<close>, \<open>currentJobCount\<close> is at most
  \<open>N\<close>, and \<open>currentJobCount\<close> is the number of tasks that were started and have not run
  their \<^verbatim>\<open>finally\<close> block.
\<close>

theorem concurrency_ceiling:
  "1 \<le> N \<Longrightarrow> store_ok st \<Longrightarrow> processing_count (new_worker st (Some N)) = 0 \<Longrightarrow> list_all event_ok evs \<Longrightarrow>
   int (processing_count (run parseDate evs (new_worker st (Some N)))) \<le> N
   \<and> currentJobCount (run parseDate evs (new_worker st (Some N))) \<le> N
   \<and> currentJobCount (run parseDate evs (new_worker st (Some N)))
       = int (length (filter unfinished (tasks (run parseDate evs (new_worker st (Some N))))))"
proof -
  assume N: "1 \<le> N" and sok: "store_ok st" and z: "processing_count (new_worker st (Some N)) = 0"
    and evs: "list_all event_ok evs"
  have none: "job_field st i ''status'' \<noteq> JStr ''processing''" for i
  proof
    assume p: "job_field st i ''status'' = JStr ''processing''"
    then obtain a where mo: "map_of (jobs st) i = Some a"
      by (auto simp: job_field_def job_obj_def split: option.splits)
    then have m: "(i, a) \<in> set (jobs st)" by (rule map_of_SomeD)
    from has_status_job_field[OF sok m] p have "has_status st ''processing'' a" by simp
    moreover from z have "\<forall>x \<in> set (map snd (jobs st)). \<not> has_status st ''processing'' x"
      by (simp add: processing_count_def new_worker_def filter_empty_conv)
    ultimately show False using m by force
  qed
  note w = new_worker_ok[OF sok none N]
  from run_ok[OF w(1) evs] w(2) have r: "sys_ok (run parseDate evs (new_worker st (Some N)))"
    "maxConcurrentJobs (run parseDate evs (new_worker st (Some N))) = N" by simp_all
  from processing_count_le[OF r(1)] r show ?thesis by (simp add: sys_ok_def)
qed

theorem concurrency_ceiling_witness:
  "(1::int) \<le> 2 \<and> store_ok demo_heap \<and> processing_count (new_worker demo_heap (Some 2)) = 0
   \<and> list_all event_ok busy_run
   \<and> int (processing_count (run timestamps_only busy_run (new_worker demo_heap (Some 2)))) \<le> 2
   \<and> processing_count (run timestamps_only busy_run (new_worker demo_heap (Some 2))) = 2
   \<and> currentJobCount (run timestamps_only busy_run (new_worker demo_heap (Some 2))) = 2
   \<and> map (\<lambda>i. job_field (store (run timestamps_only busy_run (new_worker demo_heap (Some 2)))) i ''status'')
        [''a'', ''b'', ''c''] = [JStr ''processing'', JStr ''failed'', JStr ''processing'']"
proof -
  have 1: "(1::int) \<le> 2" by simp
  have 2: "store_ok demo_heap" by (simp add: store_ok_def demo_defs)
  have 3: "processing_count (new_worker demo_heap (Some 2)) = 0" by code_simp
  have 4: "list_all event_ok busy_run" by code_simp
  have 5: "processing_count (run timestamps_only busy_run (new_worker demo_heap (Some 2))) = 2" by code_simp
  have 6: "currentJobCount (run timestamps_only busy_run (new_worker demo_heap (Some 2))) = 2" by code_simp
  have 7: "map (\<lambda>i. job_field (store (run timestamps_only busy_run (new_worker demo_heap (Some 2)))) i ''status'')
        [''a'', ''b'', ''c''] = [JStr ''processing'', JStr ''failed'', JStr ''processing'']"
    by code_simp
  from concurrency_ceiling [OF 1 2 3 4] 1 2 3 4 5 6 7 show ?thesis by simp
qed

text \<open>Why the errors must have a message: \<open>setJobFailed\<close> rejects an empty message, the
  \<^verbatim>\<open>catch\<close> block of the task swallows that, and the job stays in status
  \<open>processing\<close> after its slot is released. With a limit of 1, a second job is then
  admitted.\<close>

lemma empty_message_leaves_processing:
  "processing_count
     (run timestamps_only [Create 1 ''a'' (JRef 0), Tick 10, StageErr 11 ''a'' (JStr []) JNull, Released ''a'',
           Settle ''a'', Create 12 ''b'' (JRef 0), Tick 20] (new_worker demo_heap (Some 1))) = 2"
  by code_simp

subsection \<open>A tick and the tasks it launched\<close>
































text \<open>
  The call of \<open>processQueue\<close> that such a tick leaves suspended ends once the promises
  of all its tasks have settled: the call that admitted job \<open>a\<close> is suspended while the
  task of \<open>a\<close> goes through its stages and its \<^verbatim>\<open>finally\<close> block, the timer firing
  in between, and is gone after the callback chained to the promise of \<open>a\<close> has run.
  Nothing awaits the call: \<^verbatim>\<open>start\<close> and the timer only attach a \<^verbatim>\<open>catch\<close> handler to
  it.
\<close>

lemma processQueue_call_ends_with_its_tasks:
  "ticks one_admitted = [[''a'']] \<and> tasks one_admitted = [(''a'', Rendering)]
   \<and> ticks (run timestamps_only task_runs one_admitted) = [[''a'']]
   \<and> tasks (run timestamps_only task_runs one_admitted) = [(''a'', Settled)]
   \<and> job_field (store (run timestamps_only task_runs one_admitted)) ''a'' ''status'' = JStr ''completed''
   \<and> ticks (run timestamps_only (task_runs @ [Settle ''a'']) one_admitted) = []"
  by code_simp


end
